theory Spec2Isabelle
  imports Main "HOL-Library.Multiset"
begin

section \<open>prbot: data model\<close>

text \<open>
  The program is one Go file, \<^verbatim>\<open>main.go\<close>: \<^verbatim>\<open>main\<close> and the helper
  \<^verbatim>\<open>rawBlob\<close>. It talks to GitHub through the go-github client and formats Go source
  with \<^verbatim>\<open>go/format\<close>. Both are libraries outside the repository; the model takes
  their answers from a record \<open>world\<close> of functions and records every interaction in a
  trace of events, so that what the program asks of the outside, in which order and with
  which arguments, is a value that theorems can talk about.

  go-github's structs have pointer fields (\<^verbatim>\<open>*string\<close>, \<^verbatim>\<open>*int\<close>); a nil pointer is
  \<open>None\<close>, and dereferencing it (\<^verbatim>\<open>*te.Type\<close>) is a run-time panic, which the model
  returns as the status \<open>NilDeref\<close>. Go strings and byte slices are both \<open>string\<close>
  (a list of bytes).
\<close>

type_synonym err = string

record TreeEntry =
  SHA :: "string option"
  Path :: "string option"
  Mode :: "string option"
  Type :: "string option"
  Size :: "int option"
  Content :: "string option"

record Tree =
  Tree_SHA :: "string option"
  Entries :: "TreeEntry list"

record GitObject =
  Object_Type :: "string option"
  Object_SHA :: "string option"

record Reference =
  Ref :: "string option"
  Object :: "GitObject option"

record User =
  Login :: "string option"

record Repository =
  Owner :: "User option"
  Name :: "string option"
  HTMLURL :: "string option"

datatype Commit = Commit
  (Commit_SHA: "string option")
  (Message: "string option")
  (Commit_Tree: "Tree option")
  (Parents: "Commit list")

record NewPullRequest =
  Title :: "string option"
  Head :: "string option"
  Base :: "string option"
  Body :: "string option"

record PullRequest =
  PR_HTMLURL :: "string option"

text \<open>The HTTP request \<^verbatim>\<open>rawBlob\<close> builds: method, URL and the Accept header it sets.\<close>

record Request =
  Method :: string
  URL :: string
  Accept :: "string option"

subsection \<open>The outside world\<close>

text \<open>
  One field per library call of \<^verbatim>\<open>main.go\<close>; each returns the error (\<open>Inl\<close>) or the
  value (\<open>Inr\<close>) the Go call returns. \<open>ReadFile dir name\<close> is
  \<^verbatim>\<open>ioutil.ReadFile(filepath.Join(dir, name))\<close>; \<open>NewRequest\<close> answers with the error of
  \<^verbatim>\<open>gh.NewRequest\<close>, if any; \<open>Do\<close> is \<^verbatim>\<open>gh.Do\<close> writing the response body to a
  buffer; \<open>Source\<close> is \<^verbatim>\<open>format.Source\<close>. The remote calls go through the one client
  \<^verbatim>\<open>gh\<close> that holds the token, so the token is not an argument of its own. An answer
  depends on the arguments of the call only.
\<close>

record world =
  HOME :: string
  ReadFile :: "string \<Rightarrow> string \<Rightarrow> err + string"
  GetRef :: "string \<Rightarrow> string \<Rightarrow> string \<Rightarrow> err + Reference"
  GetTree :: "string \<Rightarrow> string \<Rightarrow> string \<Rightarrow> bool \<Rightarrow> err + Tree"
  NewRequest :: "string \<Rightarrow> string \<Rightarrow> err option"
  Do :: "Request \<Rightarrow> err + string"
  Source :: "string \<Rightarrow> err + string"
  CreateFork :: "string \<Rightarrow> string \<Rightarrow> err + Repository"
  CreateTree :: "string \<Rightarrow> string \<Rightarrow> string \<Rightarrow> TreeEntry list \<Rightarrow> err + Tree"
  CreateCommit :: "string \<Rightarrow> string \<Rightarrow> Commit \<Rightarrow> err + Commit"
  CreateRef :: "string \<Rightarrow> string \<Rightarrow> Reference \<Rightarrow> err + Reference"
  CreatePullRequest :: "string \<Rightarrow> string \<Rightarrow> NewPullRequest \<Rightarrow> err + PullRequest"

subsection \<open>Events and outcomes\<close>

text \<open>
  A printed line is its format string with its arguments (\<open>S\<close> a string or an error
  rendered by \<^verbatim>\<open>%v\<close>, \<open>D\<close> an integer): \<open>Print\<close> is \<^verbatim>\<open>fmt.Fprintf(os.Stderr, ...)\<close>,
  \<open>Log\<close> is \<^verbatim>\<open>log.Printf\<close>, \<open>Fatal\<close> is \<^verbatim>\<open>log.Fatalf\<close>, which prints and exits
  with status 1. The other events are the calls to the outside, with their arguments.
\<close>

datatype arg = S string | D int

datatype event =
    Print string "arg list"
  | Log string "arg list"
  | Fatal string "arg list"
  | ReadFile_call string string
  | GetRef_call string string string
  | GetTree_call string string string bool
  | Do_call Request
  | CreateFork_call string string
  | CreateTree_call string string string "TreeEntry list"
  | CreateCommit_call string string Commit
  | CreateRef_call string string Reference
  | CreatePullRequest_call string string NewPullRequest

text \<open>
  How a run ends: \<open>Exit n\<close> is the process exit status (\<^verbatim>\<open>os.Exit(1)\<close>,
  \<^verbatim>\<open>log.Fatalf\<close>, or 0 when \<^verbatim>\<open>main\<close> returns), \<open>NilDeref\<close> is the panic of
  dereferencing a nil pointer.
\<close>

datatype status = Exit int | NilDeref

text \<open>
  A piece of the program either stops the process (\<open>Inl\<close>: the events so far and the
  status) or goes on with a value (\<open>Inr\<close>: the events so far and the value).
\<close>

type_synonym 'a step = "(event list \<times> status) + (event list \<times> 'a)"

definition ok :: "event list \<Rightarrow> 'a \<Rightarrow> 'a step" where
  "ok evs x = Inr (evs, x)"

definition stop :: "event list \<Rightarrow> status \<Rightarrow> 'a step" where
  "stop evs s = Inl (evs, s)"

text \<open>\<open>emit evs m\<close> is \<open>m\<close> after the events \<open>evs\<close>; \<open>then_do m f\<close> runs \<open>m\<close>, then \<open>f\<close>
  on its value.\<close>

definition emit :: "event list \<Rightarrow> 'a step \<Rightarrow> 'a step" where
  "emit evs m =
     (case m of
        Inl (evs', s) \<Rightarrow> Inl (evs @ evs', s)
      | Inr (evs', x) \<Rightarrow> Inr (evs @ evs', x))"

definition then_do :: "'a step \<Rightarrow> ('a \<Rightarrow> 'b step) \<Rightarrow> 'b step" where
  "then_do m f =
     (case m of
        Inl r \<Rightarrow> Inl r
      | Inr (evs, x) \<Rightarrow> emit evs (f x))"

text \<open>\<^verbatim>\<open>*p\<close>: the value behind a pointer, or the panic.\<close>

definition deref :: "'a option \<Rightarrow> 'a step" where
  "deref p = (case p of None \<Rightarrow> stop [] NilDeref | Some x \<Rightarrow> ok [] x)"

definition log :: "string \<Rightarrow> arg list \<Rightarrow> unit step" where
  "log fmt args = ok [Log fmt args] ()"

definition fatal :: "string \<Rightarrow> arg list \<Rightarrow> 'a step" where
  "fatal fmt args = stop [Fatal fmt args] (Exit 1)"

text \<open>
  The pattern \<^verbatim>\<open>x, _, err := call(...); if err != nil { log.Fatalf(fmt, err) }\<close>:
  the call is recorded, an error is fatal.
\<close>

definition attempt :: "event \<Rightarrow> err + 'a \<Rightarrow> string \<Rightarrow> 'a step" where
  "attempt ev r fmt =
     (case r of
        Inl e \<Rightarrow> stop [ev, Fatal fmt [S e]] (Exit 1)
      | Inr x \<Rightarrow> ok [ev] x)"

section \<open>Library functions on strings\<close>

text \<open>
  \<^verbatim>\<open>strings.Split(s, sep)\<close> for a separator of one byte: cut at every occurrence of the
  separator, so the result has one more element than \<open>s\<close> has separators.
\<close>

function Split :: "string \<Rightarrow> char \<Rightarrow> string list" where
  "Split s sep =
     (case dropWhile (\<lambda>c. c \<noteq> sep) s of
        [] \<Rightarrow> [s]
      | _ # rest \<Rightarrow> takeWhile (\<lambda>c. c \<noteq> sep) s # Split rest sep)"
  by pat_completeness auto
termination
proof (relation "measure (\<lambda>(s, sep). length s)")
  show "wf (measure (\<lambda>(s, sep). length s))" by simp
next
  fix s :: string and sep :: char and x rest
  assume "dropWhile (\<lambda>c. c \<noteq> sep) s = x # rest"
  then have "length (x # rest) \<le> length s"
    using length_dropWhile_le [of "\<lambda>c. c \<noteq> sep" s] by simp
  then show "((rest, sep), (s, sep)) \<in> measure (\<lambda>(s, sep). length s)" by simp
qed

declare Split.simps [simp del]

text \<open>\<^verbatim>\<open>strings.HasSuffix(s, suffix)\<close>.\<close>

definition HasSuffix :: "string \<Rightarrow> string \<Rightarrow> bool" where
  "HasSuffix s suffix =
     (length s \<ge> length suffix \<and> drop (length s - length suffix) s = suffix)"

section \<open>The program\<close>

subsection \<open>The command line (main.go, lines 24 to 42)\<close>

text \<open>
  \<open>usage\<close> prints one line; \<^verbatim>\<open>flag.PrintDefaults\<close> prints nothing, since the program
  defines no flag.
\<close>

definition usage :: "event list" where
  "usage = [Print ''usage: prbot <user/repo>\<newline>'' []]"

text \<open>
  \<^verbatim>\<open>flag.Parse()\<close> (line 31) on the words after the program name, for a flag set with no
  flag defined, the error handling \<^verbatim>\<open>ExitOnError\<close> and \<^verbatim>\<open>flag.Usage = usage\<close> (line 30).
  Only the first word is ever looked at: a word shorter than two bytes or not starting
  with \<^verbatim>\<open>-\<close> ends the flags and every word is positional; \<^verbatim>\<open>--\<close> ends the flags and
  the words after it are positional; any other word is a flag, which is malformed, the
  help flag or undefined, and ends the program. The help flag exits with status 0, as the
  package does since Go 1.15. The result is \<^verbatim>\<open>flag.Args()\<close>.
\<close>

definition flag_Parse :: "string list \<Rightarrow> string list step" where
  "flag_Parse argv =
     (case argv of
        [] \<Rightarrow> ok [] []
      | s # rest \<Rightarrow>
          if length s < 2 \<or> s ! 0 \<noteq> CHR ''-'' then ok [] argv
          else if s = ''--'' then ok [] rest
          else let name = drop (if s ! 1 = CHR ''-'' then 2 else 1) s in
            if length name = 0 \<or> name ! 0 = CHR ''-'' \<or> name ! 0 = CHR ''='' then
              stop (Print ''bad flag syntax: %s\<newline>'' [S s] # usage) (Exit 2)
            else let name = name ! 0 # takeWhile (\<lambda>c. c \<noteq> CHR ''='') (drop 1 name) in
              if name = ''help'' \<or> name = ''h'' then stop usage (Exit 0)
              else stop (Print ''flag provided but not defined: -%s\<newline>'' [S name] # usage)
                     (Exit 2))"

text \<open>Lines 33 to 42, on \<^verbatim>\<open>flag.Args()\<close>.\<close>

definition parse_args :: "string list \<Rightarrow> (string \<times> string) step" where
  "parse_args args =
     (if length args \<noteq> 1 then stop usage (Exit 1)
      else let parts = Split (args ! 0) (CHR ''/'') in
        if length parts \<noteq> 2 then stop usage (Exit 1)
        else ok [] (parts ! 0, parts ! 1))"

text \<open>Lines 30 to 42: the words of the command line, then the positional arguments.\<close>

definition arguments :: "string list \<Rightarrow> (string \<times> string) step" where
  "arguments argv = then_do (flag_Parse argv) parse_args"

subsection \<open>Credential, branch and tree (lines 44 to 73)\<close>

definition connect :: "world \<Rightarrow> string step" where
  "connect w =
     attempt (ReadFile_call (HOME w) ''.prbot-token'')
       (ReadFile w (HOME w) ''.prbot-token'') ''Reading auth token: %v''"

definition branch :: string where
  "branch = ''master''"

definition resolve :: "world \<Rightarrow> string \<Rightarrow> string \<Rightarrow> string step" where
  "resolve w owner repo =
     then_do (log ''Resolving branch %s in github.com/%s/%s ...'' [S branch, S owner, S repo]) (\<lambda>_.
     then_do (attempt (GetRef_call owner repo (''refs/heads/'' @ branch))
                (GetRef w owner repo (''refs/heads/'' @ branch)) ''Getting ref: %v'') (\<lambda>ref.
     then_do (deref (Object ref)) (\<lambda>obj.
     then_do (deref (Object_Type obj)) (\<lambda>ty.
       if ty \<noteq> ''commit'' then fatal ''branch %s does not point at a commit'' [S branch]
       else deref (Object_SHA obj)))))"

definition fetch_tree :: "world \<Rightarrow> string \<Rightarrow> string \<Rightarrow> string \<Rightarrow> Tree step" where
  "fetch_tree w owner repo origCommit =
     then_do (log ''Fetching tree for github.com/%s/%s @ %s ...'' [S owner, S repo, S origCommit]) (\<lambda>_.
     then_do (attempt (GetTree_call owner repo origCommit True)
                (GetTree w owner repo origCommit True) ''Getting tree: %v'') (\<lambda>tree.
     then_do (deref (Tree_SHA tree)) (\<lambda>sha.
     then_do (log ''Original tree with %d entries: %s ...'' [D (int (length (Entries tree))), S sha]) (\<lambda>_.
       ok [] tree))))"

lemma then_do_cong [fundef_cong]:
  "m = m' \<Longrightarrow> (\<And>evs x. m' = Inr (evs, x) \<Longrightarrow> f x = f' x) \<Longrightarrow> then_do m f = then_do m' f'"
  by (auto simp: then_do_def split: sum.splits)

subsection \<open>Candidate selection (lines 74 to 85)\<close>

text \<open>
  The loop over \<^verbatim>\<open>tree.Entries\<close>, with \<open>goFiles\<close> the slice built so far. The
  conjunction \<^verbatim>\<open>*te.Type == "blob" && strings.HasSuffix(*te.Path, ".go")\<close> reads
  \<^verbatim>\<open>te.Path\<close> only when the type is blob. \<^verbatim>\<open>te.Size\<close> is a Go \<^verbatim>\<open>int\<close> that is only
  compared with the constant \<^verbatim>\<open>1<<20\<close>, so it is an \<open>int\<close> here.
\<close>

fun select_loop :: "TreeEntry list \<Rightarrow> TreeEntry list \<Rightarrow> TreeEntry list step" where
  "select_loop [] goFiles = ok [] goFiles"
| "select_loop (te # rest) goFiles =
     then_do (deref (Type te)) (\<lambda>ty.
       if ty = ''blob'' then
         then_do (deref (Path te)) (\<lambda>path.
           if HasSuffix path ''.go'' then
             (if Size te \<noteq> None \<and> the (Size te) > 2 ^ 20 then
                then_do (log ''Warning: Skipping %s because it is too big'' [S path]) (\<lambda>_.
                  select_loop rest goFiles)
              else select_loop rest (goFiles @ [te]))
           else select_loop rest goFiles)
       else select_loop rest goFiles)"

definition select_goFiles :: "Tree \<Rightarrow> TreeEntry list step" where
  "select_goFiles tree =
     then_do (select_loop (Entries tree) []) (\<lambda>goFiles.
     then_do (log ''Found %d Go source files'' [D (int (length goFiles))]) (\<lambda>_.
       ok [] goFiles))"

subsection \<open>Fetching a blob (rawBlob, lines 190 to 204)\<close>

text \<open>The events of the request, and the bytes or the error that \<^verbatim>\<open>rawBlob\<close> returns.\<close>

definition rawBlob :: "world \<Rightarrow> string \<Rightarrow> string \<Rightarrow> string \<Rightarrow> event list \<times> (err + string)" where
  "rawBlob w owner repo sha1 =
     (let u = ''repos/'' @ owner @ ''/'' @ repo @ ''/git/blobs/'' @ sha1 in
      case NewRequest w ''GET'' u of
        Some e \<Rightarrow> ([], Inl e)
      | None \<Rightarrow>
          (let req = \<lparr>Method = ''GET'', URL = u, Accept = Some ''application/vnd.github.v3.raw''\<rparr> in
           case Do w req of
             Inl e \<Rightarrow> ([Do_call req], Inl e)
           | Inr buf \<Rightarrow> ([Do_call req], Inr buf)))"

subsection \<open>The workers (lines 89 to 127)\<close>

text \<open>
  \<open>add\<close> appends to the shared slice \<open>changes\<close>; the struct literal sets four fields
  and leaves \<^verbatim>\<open>SHA\<close> and \<^verbatim>\<open>Size\<close> nil.
\<close>

definition add :: "TreeEntry list \<Rightarrow> TreeEntry \<Rightarrow> string \<Rightarrow> TreeEntry list" where
  "add changes base newContents =
     changes @ [\<lparr>SHA = None, Path = Path base, Mode = Mode base, Type = Type base,
                 Size = None, Content = Some newContents\<rparr>]"

text \<open>
  The body of one goroutine, run on the current value of \<open>changes\<close>.
  \<^verbatim>\<open>fmt.Sprintf("%s %.7s", *te.Path, *te.SHA)\<close> is the path, a space and the first seven
  characters of the hash. A goroutine touches the shared state once, inside \<open>add\<close>
  and under the mutex, so running it in one piece loses no behaviour of \<open>changes\<close>.
\<close>

definition worker :: "world \<Rightarrow> string \<Rightarrow> string \<Rightarrow> TreeEntry \<Rightarrow> TreeEntry list \<Rightarrow> TreeEntry list step" where
  "worker w owner repo te changes =
     then_do (deref (Path te)) (\<lambda>path.
     then_do (deref (SHA te)) (\<lambda>sha.
       let abbr = path @ '' '' @ take 7 sha in
       case rawBlob w owner repo sha of
         (evs, Inl e) \<Rightarrow> ok (evs @ [Log ''Fetching blob (%s): %v'' [S abbr, S e]]) changes
       | (evs, Inr inp) \<Rightarrow>
           (case Source w inp of
              Inl e \<Rightarrow>
                ok (evs @ [Log ''Bad Go source (%s): %v'' [S abbr, S e],
                           Log ''%s\<newline>'' [S inp]]) changes
            | Inr out \<Rightarrow>
                if inp = out then ok evs changes
                else ok (evs @ [Log ''(%s) needs gofmt'ing!'' [S abbr]])
                       (add changes te out))))"

text \<open>
  The goroutines run concurrently and \<^verbatim>\<open>wg.Wait()\<close> returns when all have finished.
  \<open>pool_step\<close> is one goroutine, the one at index \<open>i\<close> of those pending, running on the
  state (the goroutines pending and the shared slice). The order in which they run is the
  scheduler's: \<open>sched k\<close> picks, at step \<open>k\<close>, which of the goroutines still pending
  runs next (its index modulo their number), so every order is the run of some
  \<open>sched\<close>. A panic in a goroutine ends the process.
\<close>

definition drop_at :: "nat \<Rightarrow> 'a list \<Rightarrow> 'a list" where
  "drop_at i xs = take i xs @ drop (Suc i) xs"

definition pool_step :: "world \<Rightarrow> string \<Rightarrow> string \<Rightarrow> nat \<Rightarrow> TreeEntry list \<times> TreeEntry list \<Rightarrow> (TreeEntry list \<times> TreeEntry list) step" where
  "pool_step w owner repo i st =
     (case st of (pending, changes) \<Rightarrow>
        then_do (worker w owner repo (pending ! i) changes) (\<lambda>changes'.
          ok [] (drop_at i pending, changes')))"

lemma pool_step_pending:
  "pool_step w owner repo i (pending, changes) = Inr (evs, st') \<Longrightarrow> fst st' = drop_at i pending"
  by (auto simp: pool_step_def then_do_def emit_def ok_def split: sum.splits prod.splits)

function pool :: "world \<Rightarrow> string \<Rightarrow> string \<Rightarrow> (nat \<Rightarrow> nat) \<Rightarrow> nat \<Rightarrow> TreeEntry list \<Rightarrow> TreeEntry list \<Rightarrow> TreeEntry list step" where
  "pool w owner repo sched k pending changes =
     (if pending = [] then ok [] changes
      else
        then_do (pool_step w owner repo (sched k mod length pending) (pending, changes)) (\<lambda>st'.
          pool w owner repo sched (Suc k) (fst st') (snd st')))"
  by pat_completeness auto
termination
proof (relation "measure (\<lambda>(w, owner, repo, sched, k, pending, changes). length pending)")
  show "wf (measure (\<lambda>(w, owner, repo, sched, k, pending, changes). length pending))"
    by simp
next
  fix w :: world and owner repo :: string and sched :: "nat \<Rightarrow> nat" and k :: nat
    and pending changes :: "TreeEntry list" and evs :: "event list"
    and st' :: "TreeEntry list \<times> TreeEntry list"
  assume "pending \<noteq> []"
    and "pool_step w owner repo (sched k mod length pending) (pending, changes) = Inr (evs, st')"
  then have "fst st' = drop_at (sched k mod length pending) pending"
    and "sched k mod length pending < length pending"
    by (simp_all add: pool_step_pending)
  then have "length (fst st') < length pending"
    by (simp add: drop_at_def)
  then show "((w, owner, repo, sched, Suc k, fst st', snd st'),
              (w, owner, repo, sched, k, pending, changes))
             \<in> measure (\<lambda>(w, owner, repo, sched, k, pending, changes). length pending)"
    by (cases st') simp
qed

declare pool.simps [simp del]

subsection \<open>From the credential to the changeset (lines 44 to 127)\<close>

record gathered =
  g_origCommit :: string
  g_tree :: Tree
  g_goFiles :: "TreeEntry list"
  g_changes :: "TreeEntry list"

definition gather :: "world \<Rightarrow> (nat \<Rightarrow> nat) \<Rightarrow> string \<Rightarrow> string \<Rightarrow> gathered step" where
  "gather w sched owner repo =
     then_do (connect w) (\<lambda>tokenData.
     then_do (resolve w owner repo) (\<lambda>origCommit.
     then_do (fetch_tree w owner repo origCommit) (\<lambda>tree.
     then_do (select_goFiles tree) (\<lambda>goFiles.
     then_do (pool w owner repo sched 0 goFiles []) (\<lambda>changes.
       ok [] \<lparr>g_origCommit = origCommit, g_tree = tree, g_goFiles = goFiles,
              g_changes = changes\<rparr>)))))"

subsection \<open>From the changeset to the pull request (lines 128 to 188)\<close>

definition prBranch :: string where
  "prBranch = ''prbot-gofmt''"

definition create_fork :: "world \<Rightarrow> string \<Rightarrow> string \<Rightarrow> (Repository \<times> string) step" where
  "create_fork w owner repo =
     then_do (log ''Creating fork ...'' []) (\<lambda>_.
     then_do (attempt (CreateFork_call owner repo) (CreateFork w owner repo)
                ''Creating fork: %v'') (\<lambda>fork.
     then_do (deref (HTMLURL fork)) (\<lambda>forkURL.
     then_do (log ''Fork URL: %v'' [S forkURL]) (\<lambda>_.
       ok [] (fork, forkURL)))))"

definition create_tree :: "world \<Rightarrow> Repository \<Rightarrow> Tree \<Rightarrow> TreeEntry list \<Rightarrow> (string \<times> string \<times> Tree) step" where
  "create_tree w fork tree changes =
     then_do (log ''Creating new tree ...'' []) (\<lambda>_.
     then_do (deref (Owner fork)) (\<lambda>forkOwner.
     then_do (deref (Login forkOwner)) (\<lambda>login.
     then_do (deref (Name fork)) (\<lambda>name.
     then_do (deref (Tree_SHA tree)) (\<lambda>treeSHA.
     then_do (attempt (CreateTree_call login name treeSHA changes)
                (CreateTree w login name treeSHA changes) ''Creating tree: %v'') (\<lambda>newTree.
     then_do (deref (Tree_SHA newTree)) (\<lambda>newTreeSHA.
     then_do (log ''New tree: %s'' [S newTreeSHA]) (\<lambda>_.
       ok [] (login, name, newTree)))))))))"

definition create_commit :: "world \<Rightarrow> string \<Rightarrow> string \<Rightarrow> Tree \<Rightarrow> string \<Rightarrow> Commit step" where
  "create_commit w login name newTree origCommit =
     then_do (log ''Creating commit ...'' []) (\<lambda>_.
     let commit = Commit None (Some ''Run gofmt over Go source files.'')
                    (Some \<lparr>Tree_SHA = Tree_SHA newTree, Entries = []\<rparr>)
                    [Commit (Some origCommit) None None []] in
     then_do (attempt (CreateCommit_call login name commit)
                (CreateCommit w login name commit) ''Creating commit: %v'') (\<lambda>comm.
     then_do (deref (Commit_SHA comm)) (\<lambda>commSHA.
     then_do (log ''Commit: %s'' [S commSHA]) (\<lambda>_.
       ok [] comm))))"

definition create_branch :: "world \<Rightarrow> string \<Rightarrow> string \<Rightarrow> Commit \<Rightarrow> string \<Rightarrow> Reference step" where
  "create_branch w login name comm forkURL =
     then_do (log ''Creating branch ...'' []) (\<lambda>_.
     let newRef = \<lparr>Ref = Some (''refs/heads/'' @ prBranch),
                    Object = Some \<lparr>Object_Type = Some ''commit'',
                                   Object_SHA = Commit_SHA comm\<rparr>\<rparr> in
     then_do (attempt (CreateRef_call login name newRef)
                (CreateRef w login name newRef) ''Creating branch: %v'') (\<lambda>ref.
     then_do (log ''Branch URL: %s/tree/%s'' [S forkURL, S prBranch]) (\<lambda>_.
       ok [] ref)))"

definition create_pull_request :: "world \<Rightarrow> string \<Rightarrow> string \<Rightarrow> string \<Rightarrow> unit step" where
  "create_pull_request w owner repo login =
     then_do (log ''Creating pull request ...'' []) (\<lambda>_.
     let newPR = \<lparr>Title = Some ''gofmt everything'',
                   Head = Some (login @ '':'' @ prBranch),
                   Base = Some branch,
                   Body = Some ''I ran gofmt over this repository using prbot, an automated tool.''\<rparr> in
     then_do (attempt (CreatePullRequest_call owner repo newPR)
                (CreatePullRequest w owner repo newPR) ''Creating pull request: %v'') (\<lambda>pr.
     then_do (deref (PR_HTMLURL pr)) (\<lambda>prURL.
       log ''Pull request: %s'' [S prURL])))"

text \<open>
  Lines 128 to 188 in one piece: the early return on an empty changeset, then the five
  creations (lines 133 to 140, 142 to 147, 149 to 160, 162 to 175, 177 to 187), each
  taking what the earlier ones returned.
\<close>

definition publish :: "world \<Rightarrow> string \<Rightarrow> string \<Rightarrow> gathered \<Rightarrow> unit step" where
  "publish w owner repo g =
     then_do (log ''Found %d Go source files that need changes''
                [D (int (length (g_changes g)))]) (\<lambda>_.
     if length (g_changes g) = 0 then ok [] ()
     else
       then_do (create_fork w owner repo) (\<lambda>(fork, forkURL).
       then_do (create_tree w fork (g_tree g) (g_changes g)) (\<lambda>(login, name, newTree).
       then_do (create_commit w login name newTree (g_origCommit g)) (\<lambda>comm.
       then_do (create_branch w login name comm forkURL) (\<lambda>ref.
         create_pull_request w owner repo login)))))"

subsection \<open>main\<close>

text \<open>
  The whole run, from the words of the command line after the program name
  (\<^verbatim>\<open>os.Args[1:]\<close>): its trace and its exit status (0 when \<^verbatim>\<open>main\<close> returns).
\<close>

definition finish :: "unit step \<Rightarrow> event list \<times> status" where
  "finish m = (case m of Inl r \<Rightarrow> r | Inr (evs, _) \<Rightarrow> (evs, Exit 0))"

definition run :: "world \<Rightarrow> (nat \<Rightarrow> nat) \<Rightarrow> string \<Rightarrow> string \<Rightarrow> unit step" where
  "run w sched owner repo =
     then_do (gather w sched owner repo) (\<lambda>g. publish w owner repo g)"

definition main :: "world \<Rightarrow> (nat \<Rightarrow> nat) \<Rightarrow> string list \<Rightarrow> event list \<times> status" where
  "main w sched argv =
     finish (then_do (arguments argv) (\<lambda>(owner, repo). run w sched owner repo))"

section \<open>What the specification says, in terms of the program\<close>

text \<open>
  The condition of the specification on one entry: a blob, whose path ends with
  \<^verbatim>\<open>.go\<close>, of unknown size or of at most \<open>1 << 20\<close> bytes.
\<close>

definition eligible :: "TreeEntry \<Rightarrow> bool" where
  "eligible te \<longleftrightarrow>
     Type te = Some ''blob''
     \<and> (case Path te of None \<Rightarrow> False | Some p \<Rightarrow> HasSuffix p ''.go'')
     \<and> (case Size te of None \<Rightarrow> True | Some n \<Rightarrow> n \<le> 2 ^ 20)"

text \<open>
  The entries the loop can read without a panic: the type is there, and the path of a
  blob is there. Every entry of a tree listing of the hosting service has both.
\<close>

definition has_fields :: "TreeEntry \<Rightarrow> bool" where
  "has_fields te \<longleftrightarrow> Type te \<noteq> None \<and> (Type te = Some ''blob'' \<longrightarrow> Path te \<noteq> None)"

text \<open>
  What the specification expects of one candidate: the patched entry when the fetch and the
  formatter succeed and the formatter's output differs from the fetched bytes, nothing
  otherwise.
\<close>

definition spec_patch :: "world \<Rightarrow> string \<Rightarrow> string \<Rightarrow> TreeEntry \<Rightarrow> TreeEntry list" where
  "spec_patch w owner repo te =
     (case SHA te of
        None \<Rightarrow> []
      | Some sha \<Rightarrow>
          (case snd (rawBlob w owner repo sha) of
             Inl e \<Rightarrow> []
           | Inr inp \<Rightarrow>
               (case Source w inp of
                  Inl e \<Rightarrow> []
                | Inr out \<Rightarrow>
                    if inp = out then []
                    else [\<lparr>SHA = None, Path = Path te, Mode = Mode te, Type = Type te,
                           Size = None, Content = Some out\<rparr>])))"

text \<open>
  \<open>changes\<close> is nil when the goroutines start (line 91), is written only by them, and
  is only read after \<^verbatim>\<open>wg.Wait()\<close>. So the values it takes in a run over the candidates
  \<open>goFiles\<close> are those of the states reached from \<open>(goFiles, [])\<close> by letting any of the
  pending goroutines run, in any order.
\<close>

inductive reach :: "world \<Rightarrow> string \<Rightarrow> string \<Rightarrow> TreeEntry list \<Rightarrow> TreeEntry list \<times> TreeEntry list \<Rightarrow> bool"
  for w :: world and owner :: string and repo :: string and goFiles :: "TreeEntry list"
where
  start: "reach w owner repo goFiles (goFiles, [])"
| step: "reach w owner repo goFiles st \<Longrightarrow> i < length (fst st) \<Longrightarrow>
         pool_step w owner repo i st = Inr (evs, st') \<Longrightarrow>
         reach w owner repo goFiles st'"

text \<open>The events of a piece of the program, however it ends.\<close>

definition trace :: "'a step \<Rightarrow> event list" where
  "trace m = (case m of Inl (evs, s) \<Rightarrow> evs | Inr (evs, x) \<Rightarrow> evs)"

text \<open>\<open>all_events P m\<close>: every event of the piece \<open>m\<close> satisfies \<open>P\<close>.\<close>

definition all_events :: "(event \<Rightarrow> bool) \<Rightarrow> 'a step \<Rightarrow> bool" where
  "all_events P m \<longleftrightarrow> list_all P (trace m)"

text \<open>
  The remote write operations: the creation of a fork, a tree, a commit, a branch
  reference and a pull request, and any HTTP request that is not a GET.
\<close>

fun is_write :: "event \<Rightarrow> bool" where
  "is_write (CreateFork_call owner repo) = True"
| "is_write (CreateTree_call owner repo base entries) = True"
| "is_write (CreateCommit_call owner repo commit) = True"
| "is_write (CreateRef_call owner repo ref) = True"
| "is_write (CreatePullRequest_call owner repo pr) = True"
| "is_write (Do_call req) = (Method req \<noteq> ''GET'')"
| "is_write ev = False"

text \<open>The events of lines 44 to 127: log lines and reads.\<close>

fun is_read :: "event \<Rightarrow> bool" where
  "is_read (Log fmt args) = True"
| "is_read (Fatal fmt args) = True"
| "is_read (ReadFile_call dir name) = True"
| "is_read (GetRef_call owner repo ref) = True"
| "is_read (GetTree_call owner repo sha recursive) = True"
| "is_read (Do_call req) = (Method req = ''GET'')"
| "is_read ev = False"

text \<open>
  Modelled from the spec: what the hosting service stores under a tree id, and how it
  answers a tree creation. A tree is a set of entries with path, mode and content hash;
  \<open>snapshot id path\<close> is the mode and the content hash that the tree \<open>id\<close> holds at
  \<open>path\<close>. Entries that are not present in the overrides are inherited unchanged from
  the base tree.
\<close>

definition spec_inherits_base_tree ::
    "(string \<Rightarrow> string \<Rightarrow> (string \<times> string) option) \<Rightarrow> world \<Rightarrow> bool" where
  "spec_inherits_base_tree snapshot w =
     (\<forall>owner repo base entries newTree newSHA path.
        CreateTree w owner repo base entries = Inr newTree \<longrightarrow>
        Tree_SHA newTree = Some newSHA \<longrightarrow>
        Some path \<notin> set (map Path entries) \<longrightarrow>
        snapshot newSHA path = snapshot base path)"


text \<open>What the program prints on its terminal.\<close>

fun is_Print :: "event \<Rightarrow> bool" where
  "is_Print (Print fmt args) = True"
| "is_Print ev = False"

text \<open>The calls that create a tree, a commit and a pull request.\<close>

fun is_CreateTree :: "event \<Rightarrow> bool" where
  "is_CreateTree (CreateTree_call owner repo base entries) = True"
| "is_CreateTree ev = False"

fun is_CreateCommit :: "event \<Rightarrow> bool" where
  "is_CreateCommit (CreateCommit_call owner repo commit) = True"
| "is_CreateCommit ev = False"

fun is_CreatePullRequest :: "event \<Rightarrow> bool" where
  "is_CreatePullRequest (CreatePullRequest_call owner repo pr) = True"
| "is_CreatePullRequest ev = False"

section \<open>Example data\<close>

subsection \<open>A tree listing to run the selector on\<close>

definition entry_a :: TreeEntry where
  "entry_a = \<lparr>SHA = Some ''1111111111'', Path = Some ''a.go'', Mode = Some ''100644'',
               Type = Some ''blob'', Size = Some 10, Content = None\<rparr>"

definition entry_pkg :: TreeEntry where
  "entry_pkg = \<lparr>SHA = Some ''2222222222'', Path = Some ''pkg'', Mode = Some ''040000'',
                 Type = Some ''tree'', Size = None, Content = None\<rparr>"

definition entry_big :: TreeEntry where
  "entry_big = \<lparr>SHA = Some ''3333333333'', Path = Some ''pkg/big.go'', Mode = Some ''100644'',
                 Type = Some ''blob'', Size = Some 1048577, Content = None\<rparr>"

definition entry_readme :: TreeEntry where
  "entry_readme = \<lparr>SHA = Some ''4444444444'', Path = Some ''README.md'', Mode = Some ''100644'',
                    Type = Some ''blob'', Size = Some 12, Content = None\<rparr>"

definition entry_b :: TreeEntry where
  "entry_b = \<lparr>SHA = Some ''5555555555'', Path = Some ''pkg/b.go'', Mode = Some ''100755'',
               Type = Some ''blob'', Size = None, Content = None\<rparr>"

definition example_tree :: Tree where
  "example_tree =
     \<lparr>Tree_SHA = Some ''t0'',
      Entries = [entry_a, entry_pkg, entry_big, entry_readme, entry_b]\<rparr>"

subsection \<open>A world to run the program in\<close>

text \<open>
  The repository \<^verbatim>\<open>o/r\<close> with the tree listing above. The blob of \<^verbatim>\<open>a.go\<close> is
  served and is not in canonical form; every other blob request fails. The hosting service
  creates the tree \<^verbatim>\<open>t1\<close> from the base \<^verbatim>\<open>t0\<close> and one override at \<^verbatim>\<open>a.go\<close>.
\<close>

definition example_world :: world where
  "example_world =
     \<lparr>HOME = ''/home/bot'',
      ReadFile = (\<lambda>dir name. Inr ''token''),
      GetRef = (\<lambda>owner repo ref.
        Inr \<lparr>Ref = Some ref,
             Object = Some \<lparr>Object_Type = Some ''commit'', Object_SHA = Some ''c0''\<rparr>\<rparr>),
      GetTree = (\<lambda>owner repo sha recursive. Inr example_tree),
      NewRequest = (\<lambda>method u. None),
      Do = (\<lambda>req.
        if URL req = ''repos/o/r/git/blobs/1111111111'' then Inr ''package  a''
        else Inl ''404 Not Found''),
      Source = (\<lambda>src. if src = ''package  a'' then Inr ''package a'' else Inr src),
      CreateFork = (\<lambda>owner repo.
        Inr \<lparr>Owner = Some \<lparr>Login = Some ''bot''\<rparr>, Name = Some repo,
             HTMLURL = Some ''https://github.com/bot/r''\<rparr>),
      CreateTree = (\<lambda>owner repo base entries.
        if base = ''t0'' \<and> map Path entries = [Some ''a.go'']
        then Inr \<lparr>Tree_SHA = Some ''t1'', Entries = []\<rparr>
        else Inl ''422 Unprocessable Entity''),
      CreateCommit = (\<lambda>owner repo c.
        Inr (Commit (Some ''c1'') (Message c) (Commit_Tree c) (Parents c))),
      CreateRef = (\<lambda>owner repo ref. Inr ref),
      CreatePullRequest = (\<lambda>owner repo pr.
        Inr \<lparr>PR_HTMLURL = Some ''https://github.com/o/r/pull/1''\<rparr>)\<rparr>"

text \<open>
  The patch of \<^verbatim>\<open>a.go\<close> in this world, and what a run in this world holds when the
  workers have finished.
\<close>

definition patched_a :: TreeEntry where
  "patched_a = \<lparr>SHA = None, Path = Some ''a.go'', Mode = Some ''100644'',
                 Type = Some ''blob'', Size = None, Content = Some ''package a''\<rparr>"

definition example_gathered :: gathered where
  "example_gathered =
     \<lparr>g_origCommit = ''c0'', g_tree = example_tree, g_goFiles = [entry_a, entry_b],
      g_changes = [patched_a]\<rparr>"

text \<open>
  What the hosting service of the example world stores: the original tree \<^verbatim>\<open>t0\<close>, and
  the tree \<^verbatim>\<open>t1\<close> that it creates, where \<^verbatim>\<open>a.go\<close> has a new content hash.
\<close>

definition example_snapshot :: "string \<Rightarrow> string \<Rightarrow> (string \<times> string) option" where
  "example_snapshot sha path =
     (if sha = ''t1'' \<and> path = ''a.go'' then Some (''100644'', ''6666666666'')
      else if sha = ''t0'' \<or> sha = ''t1'' then
        map_of [(''a.go'', (''100644'', ''1111111111'')),
                (''pkg'', (''040000'', ''2222222222'')),
                (''pkg/big.go'', (''100644'', ''3333333333'')),
                (''README.md'', (''100644'', ''4444444444'')),
                (''pkg/b.go'', (''100755'', ''5555555555''))] path
      else None)"

text \<open>The example world with a formatter that changes nothing.\<close>

definition canonical_world :: world where
  "canonical_world = example_world\<lparr>Source := (\<lambda>src. Inr src)\<rparr>"

text \<open>The example world with a hosting service that refuses the fork.\<close>

definition fork_refused_world :: world where
  "fork_refused_world = example_world\<lparr>CreateFork := (\<lambda>owner repo. Inl ''403 Forbidden'')\<rparr>"

section \<open>Auxiliary facts about steps\<close>

lemma then_do_Inr_iff:
  "then_do m f = Inr (evs, y) \<longleftrightarrow>
     (\<exists>e1 x e2. m = Inr (e1, x) \<and> f x = Inr (e2, y) \<and> evs = e1 @ e2)"
  by (auto simp: then_do_def emit_def split: sum.splits prod.splits)

lemma then_do_Inl_iff:
  "then_do m f = Inl (evs, s) \<longleftrightarrow>
     m = Inl (evs, s) \<or> (\<exists>e1 x e2. m = Inr (e1, x) \<and> f x = Inl (e2, s) \<and> evs = e1 @ e2)"
  by (auto simp: then_do_def emit_def split: sum.splits prod.splits)

lemma then_do_Inr [simp]: "then_do (Inr (evs, x)) f = emit evs (f x)"
  by (simp add: then_do_def)

lemma then_do_Inl [simp]: "then_do (Inl r) f = Inl r"
  by (simp add: then_do_def)

lemma then_do_ok [simp]: "then_do (ok evs x) f = emit evs (f x)"
  by (simp add: then_do_def ok_def)

lemma then_do_stop [simp]: "then_do (stop evs s) f = stop evs s"
  by (simp add: then_do_def stop_def)

lemma then_do_log [simp]: "then_do (log fmt args) f = emit [Log fmt args] (f ())"
  by (simp add: log_def)

lemma deref_Some [simp]: "deref (Some x) = ok [] x"
  by (simp add: deref_def)

lemma deref_None [simp]: "deref None = stop [] NilDeref"
  by (simp add: deref_def)

lemma emit_Nil [simp]: "emit [] m = m"
  by (simp add: emit_def split: sum.splits prod.splits)

lemma emit_emit [simp]: "emit e1 (emit e2 m) = emit (e1 @ e2) m"
  by (simp add: emit_def split: sum.splits prod.splits)

lemma emit_ok [simp]: "emit e1 (ok e2 x) = ok (e1 @ e2) x"
  by (simp add: emit_def ok_def)

lemma emit_stop [simp]: "emit e1 (stop e2 s) = stop (e1 @ e2) s"
  by (simp add: emit_def stop_def)

lemma emit_Inr_iff: "emit e m = Inr (evs, x) \<longleftrightarrow> (\<exists>e'. m = Inr (e', x) \<and> evs = e @ e')"
  by (auto simp: emit_def split: sum.splits prod.splits)

lemma emit_Inl_iff: "emit e m = Inl (evs, s) \<longleftrightarrow> (\<exists>e'. m = Inl (e', s) \<and> evs = e @ e')"
  by (auto simp: emit_def split: sum.splits prod.splits)

lemma stop_ne_Inr [simp]: "stop evs s \<noteq> Inr r"
  by (simp add: stop_def)

lemma ok_ne_Inl [simp]: "ok evs x \<noteq> Inl r"
  by (simp add: ok_def)

lemma ok_eq_Inr [simp]: "ok evs x = Inr (e, y) \<longleftrightarrow> e = evs \<and> y = x"
  by (auto simp: ok_def)

lemma stop_eq_Inl [simp]: "stop evs s = Inl (e, t) \<longleftrightarrow> e = evs \<and> t = s"
  by (auto simp: stop_def)

section \<open>Candidate selection\<close>

lemma HasSuffix_iff: "HasSuffix s suffix \<longleftrightarrow> (\<exists>pre. s = pre @ suffix)"
  unfolding HasSuffix_def
proof
  assume "length suffix \<le> length s \<and> drop (length s - length suffix) s = suffix"
  then have "s = take (length s - length suffix) s @ suffix"
    by (metis append_take_drop_id)
  then show "\<exists>pre. s = pre @ suffix" ..
next
  assume "\<exists>pre. s = pre @ suffix"
  then show "length suffix \<le> length s \<and> drop (length s - length suffix) s = suffix"
    by auto
qed

lemma select_loop_Inr:
  "select_loop entries goFiles = Inr (evs, r) \<Longrightarrow> r = goFiles @ filter eligible entries"
proof (induction entries arbitrary: goFiles evs)
  case Nil
  then show ?case by simp
next
  case (Cons te rest)
  then show ?case
    by (cases "Type te"; cases "Path te"; cases "Size te")
       (auto simp: eligible_def emit_Inr_iff split: if_splits dest!: Cons.IH)
qed

lemma select_loop_total:
  "\<forall>te\<in>set entries. has_fields te \<Longrightarrow> \<exists>evs r. select_loop entries goFiles = Inr (evs, r)"
proof (induction entries arbitrary: goFiles)
  case Nil
  then show ?case by simp
next
  case (Cons te rest)
  show ?case
  proof -
    from Cons obtain e1 r1 where 1: "select_loop rest goFiles = Inr (e1, r1)"
      by fastforce
    from Cons obtain e2 r2 where 2: "select_loop rest (goFiles @ [te]) = Inr (e2, r2)"
      by fastforce
    from Cons.prems have "has_fields te" by simp
    with 1 2 show ?thesis
      by (cases "Type te"; cases "Path te"; cases "Size te")
         (simp_all add: has_fields_def emit_Inr_iff)
  qed
qed

lemma select_loop_Inl:
  "select_loop entries goFiles = Inl (evs, s) \<Longrightarrow> s = NilDeref \<and> \<not> (\<forall>te\<in>set entries. has_fields te)"
proof (induction entries arbitrary: goFiles evs)
  case Nil
  then show ?case by simp
next
  case (Cons te rest)
  have rest: "s = NilDeref \<and> (\<exists>x\<in>set rest. \<not> has_fields x)"
    if "select_loop rest g = Inl (e, s)" for g e
    using Cons.IH [OF that] by simp
  from Cons.prems show ?case
    by (cases "Type te"; cases "Path te"; cases "Size te")
       (auto simp: has_fields_def [of te] emit_Inl_iff split: if_splits dest: rest)
qed

text \<open>
  Claim C1. Whenever the selector produces a candidate list, the list is exactly the
  entries of the tree listing that are blobs, whose path ends with \<^verbatim>\<open>.go\<close> and whose
  size is unknown or at most \<open>1 << 20\<close>, each once and in the order of the listing
  (\<open>filter\<close>); and it produces one for every listing whose entries have their type and,
  for blobs, their path.
\<close>

theorem select_goFiles_filter:
  "(\<forall>evs goFiles. select_goFiles tree = Inr (evs, goFiles) \<longrightarrow>
        goFiles = filter eligible (Entries tree))
   \<and> ((\<forall>te\<in>set (Entries tree). has_fields te) \<longrightarrow>
        (\<exists>evs. select_goFiles tree = Inr (evs, filter eligible (Entries tree))))"
proof (intro conjI allI impI)
  fix evs goFiles
  assume "select_goFiles tree = Inr (evs, goFiles)"
  then obtain e1 where "select_loop (Entries tree) [] = Inr (e1, goFiles)"
    by (auto simp: select_goFiles_def then_do_Inr_iff emit_Inr_iff)
  then show "goFiles = filter eligible (Entries tree)"
    using select_loop_Inr by fastforce
next
  assume "\<forall>te\<in>set (Entries tree). has_fields te"
  then obtain e1 r where r: "select_loop (Entries tree) [] = Inr (e1, r)"
    using select_loop_total by blast
  then have "r = filter eligible (Entries tree)"
    using select_loop_Inr by fastforce
  with r show "\<exists>evs. select_goFiles tree = Inr (evs, filter eligible (Entries tree))"
    by (simp add: select_goFiles_def emit_Inr_iff)
qed

theorem select_goFiles_filter_witness:
  "list_all has_fields (Entries example_tree)
   \<and> (\<exists>evs. select_goFiles example_tree = Inr (evs, [entry_a, entry_b]))"
  using select_goFiles_filter [of example_tree]
  by (simp add: example_tree_def entry_a_def entry_pkg_def entry_big_def entry_readme_def
      entry_b_def has_fields_def eligible_def HasSuffix_def)

section \<open>Argument validation\<close>

lemma Split_no_sep: "sep \<notin> set s \<Longrightarrow> Split s sep = [s]"
proof -
  assume "sep \<notin> set s"
  then have d: "dropWhile (\<lambda>c. c \<noteq> sep) s = []" by auto
  show ?thesis by (subst Split.simps) (simp only: d list.case)
qed

lemma Split_at_sep: "sep \<notin> set a \<Longrightarrow> Split (a @ sep # b) sep = a # Split b sep"
proof -
  assume a: "sep \<notin> set a"
  then have d: "dropWhile (\<lambda>c. c \<noteq> sep) (a @ sep # b) = sep # b"
    and t: "takeWhile (\<lambda>c. c \<noteq> sep) (a @ sep # b) = a"
    by (auto simp: dropWhile_append3 takeWhile_tail)
  show ?thesis by (subst Split.simps) (simp only: d t list.case)
qed



lemma parse_args_ok:
  "CHR ''/'' \<notin> set owner \<Longrightarrow> CHR ''/'' \<notin> set repo \<Longrightarrow>
     parse_args [owner @ ''/'' @ repo] = ok [] (owner, repo)"
  by (simp add: parse_args_def Let_def Split_at_sep Split_no_sep)

lemma parse_args_Inr:
  "parse_args args = Inr (evs, owner, repo) \<Longrightarrow> evs = []"
  by (auto simp: parse_args_def Let_def split: if_splits)

lemma parse_args_Inl:
  "parse_args args = Inl (evs, st) \<Longrightarrow> evs = usage \<and> st = Exit 1"
  by (auto simp: parse_args_def Let_def stop_def split: if_splits)

subsection \<open>The flags\<close>

lemma flag_Parse_Nil: "flag_Parse [] = ok [] []"
  by (simp add: flag_Parse_def)

lemma flag_Parse_positional:
  "length s < 2 \<or> s ! 0 \<noteq> CHR ''-'' \<Longrightarrow> flag_Parse (s # rest) = ok [] (s # rest)"
  by (auto simp: flag_Parse_def)


lemma flag_Parse_Inr:
  assumes "flag_Parse argv = Inr (evs, args)"
  shows "evs = [] \<and> args = (if argv \<noteq> [] \<and> hd argv = ''--'' then tl argv else argv)"
  using assms
  by (cases argv) (auto simp: flag_Parse_def Let_def ok_def stop_def split: if_splits)

lemma flag_Parse_Inl:
  assumes "flag_Parse argv = Inl (evs, st)"
  shows "\<exists>msg. evs = msg @ usage \<and> list_all is_Print msg \<and> (st = Exit 0 \<or> st = Exit 2)"
  using assms
  by (cases argv) (auto simp: flag_Parse_def Let_def ok_def stop_def split: if_splits)





subsection \<open>The flags, then the positional arguments\<close>

lemma arguments_Inr:
  assumes "arguments argv = Inr (evs, owner, repo)"
  shows "evs = []"
  using assms
  by (auto simp: arguments_def then_do_Inr_iff dest!: flag_Parse_Inr parse_args_Inr)

lemma arguments_Inl:
  assumes "arguments argv = Inl (evs, st)"
  shows "list_all is_Print evs"
  using assms
  by (auto simp: arguments_def then_do_Inl_iff usage_def
      dest!: flag_Parse_Inr flag_Parse_Inl parse_args_Inl)

lemma arguments_positional:
  assumes "length s < 2 \<or> s ! 0 \<noteq> CHR ''-''"
  shows "arguments (s # rest) = parse_args (s # rest)"
  using assms by (simp add: arguments_def flag_Parse_positional)


lemma arguments_example: "arguments [''o/r''] = Inr ([], ''o'', ''r'')"
  using parse_args_ok [of "''o''" "''r''"] arguments_positional [of "''o/r''" "[]"]
  by (simp add: ok_def)

section \<open>Usage errors\<close>

text \<open>
  Claim C8, as the specification states it, fails for the help flag: \<^verbatim>\<open>prbot -h\<close> has no
  positional argument, and its one word holds no \<^verbatim>\<open>/\<close>; flag parsing prints the usage
  line and exits with status 0.
\<close>

theorem help_exits_zero:
  "count_list ''-h'' (CHR ''/'') = 0
   \<and> (\<forall>w sched. main w sched [''-h''] = ([Print ''usage: prbot <user/repo>\<newline>'' []], Exit 0))"
  by (simp add: main_def arguments_def flag_Parse_def stop_def finish_def usage_def)



section \<open>One worker\<close>

lemma worker_Inr:
  assumes "Path te = Some path" and "SHA te = Some sha"
  shows "\<exists>evs. worker w owner repo te changes = Inr (evs, changes @ spec_patch w owner repo te)"
  using assms
  by (cases "rawBlob w owner repo sha")
     (auto simp: worker_def spec_patch_def add_def Let_def ok_def split: sum.splits)

lemma worker_Inl:
  "worker w owner repo te changes = Inl (evs, s) \<Longrightarrow>
     evs = [] \<and> s = NilDeref \<and> (Path te = None \<or> SHA te = None)"
  by (cases "Path te"; cases "SHA te")
     (auto simp: worker_def Let_def ok_def emit_def stop_def split: sum.splits prod.splits if_splits)

lemma worker_fetch_failure:
  assumes "Path te = Some path" and "SHA te = Some sha"
    and "snd (rawBlob w owner repo sha) = Inl e"
    and "worker w owner repo te changes = Inr (evs, changes')"
  shows "Log ''Fetching blob (%s): %v'' [S (path @ '' '' @ take 7 sha), S e] \<in> set evs"
  using assms
  by (cases "rawBlob w owner repo sha") (auto simp: worker_def Let_def)

lemma worker_format_failure:
  assumes "Path te = Some path" and "SHA te = Some sha"
    and "snd (rawBlob w owner repo sha) = Inr inp" and "Source w inp = Inl e"
    and "worker w owner repo te changes = Inr (evs, changes')"
  shows "Log ''Bad Go source (%s): %v'' [S (path @ '' '' @ take 7 sha), S e] \<in> set evs"
  using assms
  by (cases "rawBlob w owner repo sha") (auto simp: worker_def Let_def)

lemma worker_events_any_changes:
  "worker w owner repo te c1 = Inr (evs, c1') \<Longrightarrow> \<exists>c2'. worker w owner repo te c2 = Inr (evs, c2')"
  by (cases "Path te"; cases "SHA te"; cases "rawBlob w owner repo (the (SHA te))")
     (auto simp: worker_def Let_def ok_def split: sum.splits if_splits)

text \<open>
  Claim C2. The worker of a candidate (an entry with its path and its hash) always goes
  on, and what it leaves in \<open>changes\<close> is decided by three tests: the fetch, the
  formatter, and the comparison of the bytes. Only when the fetch succeeds, the formatter
  succeeds and its output differs from the fetched bytes is one entry appended; that
  entry has the path, the mode and the type of the candidate, the formatter's output as
  its content, and no hash and no size. In every other case \<open>changes\<close> is left as it was.
\<close>

theorem worker_appends:
  assumes "Path te = Some path" and "SHA te = Some sha"
  shows "\<exists>evs. worker w owner repo te changes =
     Inr (evs,
       (case snd (rawBlob w owner repo sha) of
          Inl e \<Rightarrow> changes
        | Inr inp \<Rightarrow>
            (case Source w inp of
               Inl e \<Rightarrow> changes
             | Inr out \<Rightarrow>
                 if inp = out then changes
                 else changes @ [\<lparr>SHA = None, Path = Some path, Mode = Mode te, Type = Type te,
                                   Size = None, Content = Some out\<rparr>])))"
proof -
  obtain evs where
    "worker w owner repo te changes = Inr (evs, changes @ spec_patch w owner repo te)"
    using worker_Inr [OF assms] by blast
  moreover have "changes @ spec_patch w owner repo te =
       (case snd (rawBlob w owner repo sha) of
          Inl e \<Rightarrow> changes
        | Inr inp \<Rightarrow>
            (case Source w inp of
               Inl e \<Rightarrow> changes
             | Inr out \<Rightarrow>
                 if inp = out then changes
                 else changes @ [\<lparr>SHA = None, Path = Some path, Mode = Mode te, Type = Type te,
                                   Size = None, Content = Some out\<rparr>]))"
    using assms by (simp add: spec_patch_def split: sum.splits)
  ultimately show ?thesis by auto
qed

theorem worker_appends_witness:
  "Path entry_a = Some ''a.go'' \<and> SHA entry_a = Some ''1111111111''
   \<and> (\<exists>evs. worker example_world ''o'' ''r'' entry_a [] = Inr (evs, [patched_a]))
   \<and> Path entry_b = Some ''pkg/b.go'' \<and> SHA entry_b = Some ''5555555555''
   \<and> (\<exists>evs. worker example_world ''o'' ''r'' entry_b [patched_a] = Inr (evs, [patched_a]))"
proof -
  have a: "Path entry_a = Some ''a.go''" "SHA entry_a = Some ''1111111111''"
    by (simp_all add: entry_a_def)
  have b: "Path entry_b = Some ''pkg/b.go''" "SHA entry_b = Some ''5555555555''"
    by (simp_all add: entry_b_def)
  show ?thesis
    using worker_appends [OF a, of example_world "''o''" "''r''" "[]"]
      worker_appends [OF b, of example_world "''o''" "''r''" "[patched_a]"]
    by (simp add: a b rawBlob_def example_world_def patched_a_def entry_a_def entry_b_def)
qed

section \<open>The pool of workers\<close>

lemma set_drop_at: "set (drop_at i xs) \<subseteq> set xs"
  by (auto simp: drop_at_def dest: in_set_takeD in_set_dropD)

lemma length_drop_at: "i < length xs \<Longrightarrow> length (drop_at i xs) = length xs - 1"
  by (simp add: drop_at_def)

lemma nth_drop_at: "i < length xs \<Longrightarrow> xs = take i xs @ xs ! i # drop (Suc i) xs"
  by (simp add: id_take_nth_drop)

lemma set_nth_drop_at: "i < length xs \<Longrightarrow> set xs = insert (xs ! i) (set (drop_at i xs))"
proof -
  assume "i < length xs"
  then have "set xs = set (take i xs @ xs ! i # drop (Suc i) xs)"
    using nth_drop_at by metis
  then show ?thesis by (auto simp: drop_at_def)
qed

lemma mset_concat_drop_at:
  assumes "i < length xs"
  shows "mset (concat (map f xs)) = mset (f (xs ! i)) + mset (concat (map f (drop_at i xs)))"
proof -
  have "concat (map f xs) = concat (map f (take i xs @ xs ! i # drop (Suc i) xs))"
    using nth_drop_at [OF assms] by metis
  then show ?thesis by (simp add: drop_at_def)
qed

lemma pool_step_Inr:
  assumes "i < length pending"
    and "Path (pending ! i) \<noteq> None" and "SHA (pending ! i) \<noteq> None"
  shows "\<exists>evs. pool_step w owner repo i (pending, changes) =
           Inr (evs, (drop_at i pending, changes @ spec_patch w owner repo (pending ! i)))
         \<and> (\<exists>c'. worker w owner repo (pending ! i) changes = Inr (evs, c'))"
proof -
  from assms obtain path sha where "Path (pending ! i) = Some path" "SHA (pending ! i) = Some sha"
    by auto
  then obtain evs where
    "worker w owner repo (pending ! i) changes =
       Inr (evs, changes @ spec_patch w owner repo (pending ! i))"
    using worker_Inr by blast
  then show ?thesis by (simp add: pool_step_def)
qed

text \<open>
  The run of the pool from any state: it goes on, the final \<open>changes\<close> holds the
  entries it started with and the patches of all the pending candidates, and the events of
  every pending worker are in the trace.
\<close>

lemma pool_result:
  assumes "\<forall>te\<in>set pending. Path te \<noteq> None \<and> SHA te \<noteq> None"
  shows "\<exists>evs changes'.
           pool w owner repo sched k pending changes = Inr (evs, changes')
           \<and> mset changes' = mset changes + mset (concat (map (spec_patch w owner repo) pending))
           \<and> (\<forall>te\<in>set pending. \<exists>e c c'. worker w owner repo te c = Inr (e, c') \<and> set e \<subseteq> set evs)"
  using assms
proof (induction "length pending" arbitrary: k pending changes)
  case 0
  then have "pool w owner repo sched k pending changes = Inr ([], changes)"
    by (subst pool.simps) (simp add: ok_def)
  with 0 show ?case by simp
next
  case (Suc n)
  define i where "i = sched k mod length pending"
  from Suc.hyps(2) have ne: "pending \<noteq> []" by auto
  then have i: "i < length pending" by (simp add: i_def)
  then have mem: "pending ! i \<in> set pending" by simp
  with Suc.prems have fields: "Path (pending ! i) \<noteq> None" "SHA (pending ! i) \<noteq> None"
    by auto
  obtain e1 c1 where step: "pool_step w owner repo i (pending, changes) =
        Inr (e1, (drop_at i pending, changes @ spec_patch w owner repo (pending ! i)))"
    and wk: "worker w owner repo (pending ! i) changes = Inr (e1, c1)"
    using pool_step_Inr [OF i fields] by blast
  have len: "n = length (drop_at i pending)"
    using Suc.hyps(2) i by (simp add: length_drop_at)
  have rest: "\<forall>te\<in>set (drop_at i pending). Path te \<noteq> None \<and> SHA te \<noteq> None"
  proof
    fix te assume "te \<in> set (drop_at i pending)"
    then have "te \<in> set pending" by (rule subsetD [OF set_drop_at])
    with Suc.prems show "Path te \<noteq> None \<and> SHA te \<noteq> None" by simp
  qed
  obtain e2 c2 where run: "pool w owner repo sched (Suc k) (drop_at i pending)
        (changes @ spec_patch w owner repo (pending ! i)) = Inr (e2, c2)"
    and ms: "mset c2 = mset (changes @ spec_patch w owner repo (pending ! i))
        + mset (concat (map (spec_patch w owner repo) (drop_at i pending)))"
    and ev: "\<forall>te\<in>set (drop_at i pending). \<exists>e c c'. worker w owner repo te c = Inr (e, c') \<and> set e \<subseteq> set e2"
    using Suc.hyps(1) [OF len rest, of "Suc k" "changes @ spec_patch w owner repo (pending ! i)"]
    by (elim exE conjE)
  have "pool w owner repo sched k pending changes = Inr (e1 @ e2, c2)"
    using ne step run by (subst pool.simps) (simp add: i_def [symmetric] emit_def)
  moreover have "mset c2 = mset changes + mset (concat (map (spec_patch w owner repo) pending))"
    using ms mset_concat_drop_at [OF i, of "spec_patch w owner repo"] by simp
  moreover have "\<forall>te\<in>set pending. \<exists>e c c'. worker w owner repo te c = Inr (e, c') \<and> set e \<subseteq> set (e1 @ e2)"
  proof
    fix te assume "te \<in> set pending"
    then consider "te = pending ! i" | "te \<in> set (drop_at i pending)"
      using set_nth_drop_at [OF i] by auto
    then show "\<exists>e c c'. worker w owner repo te c = Inr (e, c') \<and> set e \<subseteq> set (e1 @ e2)"
    proof cases
      case 1
      have "worker w owner repo te changes = Inr (e1, c1) \<and> set e1 \<subseteq> set (e1 @ e2)"
        using 1 wk by simp
      then show ?thesis by (intro exI)
    next
      case 2
      from ev 2 have "\<exists>e c c'. worker w owner repo te c = Inr (e, c') \<and> set e \<subseteq> set e2"
        by (rule bspec)
      then obtain e c c' where "worker w owner repo te c = Inr (e, c')" "set e \<subseteq> set e2"
        by (elim exE conjE)
      then have "worker w owner repo te c = Inr (e, c') \<and> set e \<subseteq> set (e1 @ e2)"
        by auto
      then show ?thesis by (intro exI)
    qed
  qed
  ultimately have "pool w owner repo sched k pending changes = Inr (e1 @ e2, c2)
      \<and> mset c2 = mset changes + mset (concat (map (spec_patch w owner repo) pending))
      \<and> (\<forall>te\<in>set pending. \<exists>e c c'. worker w owner repo te c = Inr (e, c') \<and> set e \<subseteq> set (e1 @ e2))"
    by (intro conjI)
  then show ?case by (intro exI)
qed

lemma pool_Nil: "pool w owner repo sched k [] changes = ok [] changes"
  by (subst pool.simps) simp

lemma pool_Cons:
  "pool w owner repo sched k (te # rest) changes =
     then_do (pool_step w owner repo (sched k mod length (te # rest)) (te # rest, changes)) (\<lambda>st'.
       pool w owner repo sched (Suc k) (fst st') (snd st'))"
  by (subst pool.simps) simp

text \<open>
  Claim C4. Whatever the order of the goroutines, the pool of the candidates (entries with
  their path and hash) goes on to line 128: no failure of a fetch or of the formatter stops
  the process. The final changeset holds, up to order, the patch of every candidate that
  has one, so a candidate whose fetch or formatting fails contributes nothing and takes
  nothing away from the others. Such a failure is logged with the path of the candidate and
  the first seven characters of its hash.
\<close>

theorem pool_isolates_failures:
  assumes "\<forall>te\<in>set goFiles. Path te \<noteq> None \<and> SHA te \<noteq> None"
  shows "\<exists>evs changes.
           pool w owner repo sched 0 goFiles [] = Inr (evs, changes)
           \<and> mset changes = mset (concat (map (spec_patch w owner repo) goFiles))
           \<and> (\<forall>te\<in>set goFiles. \<forall>e.
                 snd (rawBlob w owner repo (the (SHA te))) = Inl e \<longrightarrow>
                 Log ''Fetching blob (%s): %v''
                   [S (the (Path te) @ '' '' @ take 7 (the (SHA te))), S e] \<in> set evs)
           \<and> (\<forall>te\<in>set goFiles. \<forall>inp e.
                 snd (rawBlob w owner repo (the (SHA te))) = Inr inp \<and> Source w inp = Inl e \<longrightarrow>
                 Log ''Bad Go source (%s): %v''
                   [S (the (Path te) @ '' '' @ take 7 (the (SHA te))), S e] \<in> set evs)"
proof -
  obtain evs changes where run: "pool w owner repo sched 0 goFiles [] = Inr (evs, changes)"
    and ms: "mset changes = mset [] + mset (concat (map (spec_patch w owner repo) goFiles))"
    and ev: "\<forall>te\<in>set goFiles. \<exists>e c c'. worker w owner repo te c = Inr (e, c') \<and> set e \<subseteq> set evs"
    using pool_result [OF assms, of w owner repo sched 0 "[]"] by (elim exE conjE)
  have fetch: "Log ''Fetching blob (%s): %v''
        [S (the (Path te) @ '' '' @ take 7 (the (SHA te))), S e] \<in> set evs"
    if te: "te \<in> set goFiles" and f: "snd (rawBlob w owner repo (the (SHA te))) = Inl e" for te e
  proof -
    from ev te obtain e1 c c' where wk: "worker w owner repo te c = Inr (e1, c')"
      and sub: "set e1 \<subseteq> set evs" by blast
    from assms te obtain path sha where ps: "Path te = Some path" "SHA te = Some sha" by auto
    with f have "snd (rawBlob w owner repo sha) = Inl e" by simp
    from worker_fetch_failure [OF ps this wk] sub ps show ?thesis by auto
  qed
  have format: "Log ''Bad Go source (%s): %v''
        [S (the (Path te) @ '' '' @ take 7 (the (SHA te))), S e] \<in> set evs"
    if te: "te \<in> set goFiles" and f: "snd (rawBlob w owner repo (the (SHA te))) = Inr inp"
      and g: "Source w inp = Inl e" for te inp e
  proof -
    from ev te obtain e1 c c' where wk: "worker w owner repo te c = Inr (e1, c')"
      and sub: "set e1 \<subseteq> set evs" by blast
    from assms te obtain path sha where ps: "Path te = Some path" "SHA te = Some sha" by auto
    with f have "snd (rawBlob w owner repo sha) = Inr inp" by simp
    from worker_format_failure [OF ps this g wk] sub ps show ?thesis by auto
  qed
  from run ms fetch format show ?thesis by auto
qed

theorem pool_isolates_failures_witness:
  "list_all (\<lambda>te. Path te \<noteq> None \<and> SHA te \<noteq> None) [entry_a, entry_b]
   \<and> snd (rawBlob example_world ''o'' ''r'' ''5555555555'') = Inl ''404 Not Found''
   \<and> (\<exists>evs. pool example_world ''o'' ''r'' (\<lambda>k. 1) 0 [entry_a, entry_b] [] = Inr (evs, [patched_a])
         \<and> Log ''Fetching blob (%s): %v'' [S ''pkg/b.go 5555555'', S ''404 Not Found''] \<in> set evs)"
proof -
  have fields: "\<forall>te\<in>set [entry_a, entry_b]. Path te \<noteq> None \<and> SHA te \<noteq> None"
    by (simp add: entry_a_def entry_b_def)
  have fetch: "snd (rawBlob example_world ''o'' ''r'' ''5555555555'') = Inl ''404 Not Found''"
    by (simp add: rawBlob_def example_world_def)
  have run: "\<exists>evs. pool example_world ''o'' ''r'' (\<lambda>k. 1) 0 [entry_a, entry_b] [] = Inr (evs, [patched_a])"
    by (simp add: pool_Cons pool_Nil pool_step_def drop_at_def worker_def rawBlob_def Let_def
        add_def example_world_def entry_a_def entry_b_def patched_a_def ok_def emit_def)
  show ?thesis
    using pool_isolates_failures [OF fields, of example_world "''o''" "''r''" "\<lambda>k. 1"] fetch run
    by (auto simp: entry_a_def entry_b_def)
qed

section \<open>The changeset at every point of a run\<close>

lemma worker_Inr_result:
  "worker w owner repo te changes = Inr (evs, changes') \<Longrightarrow>
     changes' = changes @ spec_patch w owner repo te"
proof -
  assume wk: "worker w owner repo te changes = Inr (evs, changes')"
  have "Path te \<noteq> None \<and> SHA te \<noteq> None"
    using wk by (cases "Path te"; cases "SHA te") (simp_all add: worker_def)
  then obtain path sha where "Path te = Some path" "SHA te = Some sha" by auto
  then obtain e where "worker w owner repo te changes = Inr (e, changes @ spec_patch w owner repo te)"
    using worker_Inr by blast
  with wk show ?thesis by simp
qed

lemma pool_step_result:
  "pool_step w owner repo i (pending, changes) = Inr (evs, st') \<Longrightarrow>
     st' = (drop_at i pending, changes @ spec_patch w owner repo (pending ! i))"
  by (auto simp: pool_step_def then_do_Inr_iff dest: worker_Inr_result)

lemma spec_patch_entry:
  "e \<in> set (spec_patch w owner repo te) \<Longrightarrow>
     Content e \<noteq> None \<and> SHA e = None \<and> Path e = Path te \<and> Mode e = Mode te \<and> Type e = Type te"
  by (auto simp: spec_patch_def split: option.splits sum.splits if_splits)

lemma length_spec_patch: "length (spec_patch w owner repo te) \<le> 1"
  by (simp add: spec_patch_def split: option.splits sum.splits)

lemma reach_invariant:
  "reach w owner repo goFiles st \<Longrightarrow>
     set (fst st) \<subseteq> set goFiles
     \<and> length (snd st) + length (fst st) \<le> length goFiles
     \<and> (\<forall>e\<in>set (snd st). Content e \<noteq> None \<and> SHA e = None
           \<and> (\<exists>c\<in>set goFiles. Path e = Path c \<and> Mode e = Mode c \<and> Type e = Type c))"
proof (induction rule: reach.induct)
  case start
  show ?case by simp
next
  case (step st i evs st')
  obtain pending changes where st: "st = (pending, changes)" by (cases st)
  with step.hyps have i: "i < length pending" by simp
  have st': "st' = (drop_at i pending, changes @ spec_patch w owner repo (pending ! i))"
    using step.hyps(3) st pool_step_result by blast
  from step.IH st have sub: "set pending \<subseteq> set goFiles"
    and len: "length changes + length pending \<le> length goFiles"
    and inv: "\<forall>e\<in>set changes. Content e \<noteq> None \<and> SHA e = None
           \<and> (\<exists>c\<in>set goFiles. Path e = Path c \<and> Mode e = Mode c \<and> Type e = Type c)"
    by simp_all
  have mem: "pending ! i \<in> set goFiles"
    using i sub by auto
  have 1: "set (drop_at i pending) \<subseteq> set goFiles"
    using sub set_drop_at by fastforce
  have 2: "length (changes @ spec_patch w owner repo (pending ! i)) + length (drop_at i pending)
      \<le> length goFiles"
    using len i length_spec_patch [of w owner repo "pending ! i"]
    by (simp add: length_drop_at)
  have 3: "Content e \<noteq> None \<and> SHA e = None
           \<and> (\<exists>c\<in>set goFiles. Path e = Path c \<and> Mode e = Mode c \<and> Type e = Type c)"
    if "e \<in> set (changes @ spec_patch w owner repo (pending ! i))" for e
  proof (cases "e \<in> set changes")
    case True
    with inv show ?thesis by simp
  next
    case False
    with that have "e \<in> set (spec_patch w owner repo (pending ! i))" by simp
    from spec_patch_entry [OF this] mem show ?thesis by blast
  qed
  from 1 2 3 show ?case unfolding st' by simp
qed

text \<open>
  Claim C9. In every state a run of the workers can reach, every entry of the changeset
  has a content and no hash, and has the path, the mode and the type of one of the
  candidates; and the changeset has at most as many entries as there are candidates.
\<close>

theorem changeset_invariant:
  "reach w owner repo goFiles (pending, changes) \<Longrightarrow>
     (\<forall>e\<in>set changes. Content e \<noteq> None \<and> SHA e = None
         \<and> (\<exists>c\<in>set goFiles. Path e = Path c \<and> Mode e = Mode c \<and> Type e = Type c))
     \<and> length changes \<le> length goFiles"
  using reach_invariant [of w owner repo goFiles "(pending, changes)"] by simp

theorem changeset_invariant_witness:
  "reach example_world ''o'' ''r'' [entry_a, entry_b] ([entry_b], [patched_a])
   \<and> Content patched_a = Some ''package a'' \<and> SHA patched_a = None
   \<and> Path patched_a = Path entry_a \<and> Mode patched_a = Mode entry_a \<and> Type patched_a = Type entry_a
   \<and> length [patched_a] \<le> length [entry_a, entry_b]"
proof -
  have "pool_step example_world ''o'' ''r'' 0 ([entry_a, entry_b], []) =
      Inr ([Do_call \<lparr>Method = ''GET'', URL = ''repos/o/r/git/blobs/1111111111'',
                      Accept = Some ''application/vnd.github.v3.raw''\<rparr>,
            Log ''(%s) needs gofmt'ing!'' [S ''a.go 1111111'']],
           ([entry_b], [patched_a]))"
    by (simp add: pool_step_def drop_at_def worker_def rawBlob_def Let_def add_def
        example_world_def entry_a_def entry_b_def patched_a_def ok_def emit_def)
  then have r: "reach example_world ''o'' ''r'' [entry_a, entry_b] ([entry_b], [patched_a])"
    using reach.step [OF reach.start, of 0 "[entry_a, entry_b]" example_world "''o''" "''r''"]
    by simp
  show ?thesis
    using changeset_invariant [OF r] r
    by (simp add: patched_a_def entry_a_def)
qed

text \<open>The run of the pool passes through reachable states only, and ends in one.\<close>

lemma pool_reach:
  "reach w owner repo goFiles (pending, changes) \<Longrightarrow>
   pool w owner repo sched k pending changes = Inr (evs, changes') \<Longrightarrow>
     reach w owner repo goFiles ([], changes')"
proof (induction "length pending" arbitrary: k pending changes evs)
  case 0
  then show ?case by (simp add: pool_Nil)
next
  case (Suc n)
  define i where "i = sched k mod length pending"
  from Suc.hyps(2) have ne: "pending \<noteq> []" by auto
  then have i: "i < length pending" by (simp add: i_def)
  from Suc.prems(2) ne obtain e1 st' e2
    where step: "pool_step w owner repo i (pending, changes) = Inr (e1, st')"
      and run: "pool w owner repo sched (Suc k) (fst st') (snd st') = Inr (e2, changes')"
    by (subst (asm) pool.simps) (auto simp: then_do_Inr_iff i_def)
  have st': "st' = (drop_at i pending, changes @ spec_patch w owner repo (pending ! i))"
    using step pool_step_result by blast
  have "reach w owner repo goFiles st'"
    using reach.step [OF Suc.prems(1) _ step] i by simp
  moreover have "n = length (fst st')"
    using Suc.hyps(2) i st' by (simp add: length_drop_at)
  ultimately show ?case
    using Suc.hyps(1) [of "fst st'" "snd st'" "Suc k" e2] run by simp
qed

section \<open>Traces\<close>

lemma is_read_not_write: "is_read ev \<Longrightarrow> \<not> is_write ev"
  by (cases ev) simp_all

lemma trace_Inl [simp]: "trace (Inl (evs, s)) = evs"
  by (simp add: trace_def)

lemma trace_Inr [simp]: "trace (Inr (evs, x)) = evs"
  by (simp add: trace_def)

lemma trace_ok [simp]: "trace (ok evs x) = evs"
  by (simp add: trace_def ok_def)

lemma trace_stop [simp]: "trace (stop evs s) = evs"
  by (simp add: trace_def stop_def)

lemma trace_emit [simp]: "trace (emit evs m) = evs @ trace m"
  by (simp add: trace_def emit_def split: sum.splits prod.splits)

lemma trace_log [simp]: "trace (log fmt args) = [Log fmt args]"
  by (simp add: log_def)

lemma trace_fatal [simp]: "trace (fatal fmt args) = [Fatal fmt args]"
  by (simp add: fatal_def)

lemma trace_then_do:
  "trace (then_do m f) = (case m of Inl (evs, s) \<Rightarrow> evs | Inr (evs, x) \<Rightarrow> evs @ trace (f x))"
  by (simp add: then_do_def split: sum.splits prod.splits)

lemma fst_finish [simp]: "fst (finish m) = trace m"
  by (simp add: finish_def trace_def split: sum.splits prod.splits)

lemma then_do_attempt [simp]:
  "then_do (attempt ev r fmt) f =
     (case r of Inl e \<Rightarrow> stop [ev, Fatal fmt [S e]] (Exit 1) | Inr x \<Rightarrow> emit [ev] (f x))"
  by (simp add: attempt_def split: sum.splits)

lemma then_do_deref [simp]:
  "then_do (deref p) f = (case p of None \<Rightarrow> stop [] NilDeref | Some x \<Rightarrow> f x)"
  by (simp add: split: option.splits)

lemma all_events_then_do_Inr:
  "all_events P m \<Longrightarrow> (\<And>evs x. m = Inr (evs, x) \<Longrightarrow> all_events P (f x)) \<Longrightarrow>
     all_events P (then_do m f)"
  by (auto simp: all_events_def trace_then_do split: sum.splits)

lemma all_events_then_do:
  "all_events P m \<Longrightarrow> (\<And>x. all_events P (f x)) \<Longrightarrow> all_events P (then_do m f)"
  by (rule all_events_then_do_Inr)

lemma all_events_simps [simp]:
  "all_events P (ok evs x) \<longleftrightarrow> list_all P evs"
  "all_events P (stop evs s) \<longleftrightarrow> list_all P evs"
  "all_events P (log fmt args) \<longleftrightarrow> P (Log fmt args)"
  "all_events P (fatal fmt args) \<longleftrightarrow> P (Fatal fmt args)"
  "all_events P (deref p)"
  "all_events P (emit evs m) \<longleftrightarrow> list_all P evs \<and> all_events P m"
  by (simp_all add: all_events_def deref_def split: option.splits)

lemma all_events_attempt:
  "P ev \<Longrightarrow> (\<And>e. P (Fatal fmt [S e])) \<Longrightarrow> all_events P (attempt ev r fmt)"
  by (simp add: attempt_def split: sum.splits)

lemma reads_connect: "all_events is_read (connect w)"
  by (simp add: connect_def all_events_attempt)

lemma reads_resolve: "all_events is_read (resolve w owner repo)"
  unfolding resolve_def
  by (intro all_events_then_do all_events_attempt) simp_all

lemma reads_fetch_tree: "all_events is_read (fetch_tree w owner repo origCommit)"
  unfolding fetch_tree_def
  by (intro all_events_then_do all_events_attempt) simp_all

lemma reads_select_loop: "all_events is_read (select_loop entries goFiles)"
proof (induction entries arbitrary: goFiles)
  case Nil
  show ?case by simp
next
  case (Cons te rest)
  show ?case
    by (cases "Type te"; cases "Path te") (simp_all add: Cons.IH)
qed

lemma reads_select_goFiles: "all_events is_read (select_goFiles tree)"
  unfolding select_goFiles_def
  by (intro all_events_then_do reads_select_loop) simp_all

lemma reads_worker: "all_events is_read (worker w owner repo te changes)"
  by (cases "Path te"; cases "SHA te"; cases "NewRequest w ''GET''
        (''repos/'' @ owner @ ''/'' @ repo @ ''/git/blobs/'' @ the (SHA te))")
     (auto simp: worker_def rawBlob_def Let_def split: sum.splits)

lemma reads_pool_step: "all_events is_read (pool_step w owner repo i st)"
  by (cases st) (auto simp: pool_step_def intro!: all_events_then_do reads_worker)

lemma reads_pool: "all_events is_read (pool w owner repo sched k pending changes)"
proof (induction "length pending" arbitrary: k pending changes)
  case 0
  then show ?case by (simp add: pool_Nil)
next
  case (Suc n)
  then obtain te rest where p: "pending = te # rest" by (cases pending) auto
  have "all_events is_read (pool w owner repo sched (Suc k) (fst st') (snd st'))"
    if "pool_step w owner repo i (pending, changes) = Inr (evs, st')" and "i < length pending"
    for i evs st'
  proof -
    have "fst st' = drop_at i pending" using that(1) by (rule pool_step_pending)
    then have "n = length (fst st')" using Suc.hyps(2) that(2) by (simp add: length_drop_at)
    then show ?thesis by (rule Suc.hyps(1))
  qed
  then show ?case
    unfolding p pool_Cons
    by (intro all_events_then_do_Inr reads_pool_step) simp
qed

lemma reads_gather: "all_events is_read (gather w sched owner repo)"
  unfolding gather_def
  by (intro all_events_then_do reads_connect reads_resolve reads_fetch_tree
      reads_select_goFiles reads_pool) simp_all

section \<open>What a completed gathering has established\<close>

lemma deref_Inr_iff [simp]: "deref p = Inr (evs, x) \<longleftrightarrow> p = Some x \<and> evs = []"
  by (cases p) (auto simp: deref_def ok_def stop_def)

lemma deref_Inl_iff [simp]: "deref p = Inl (evs, s) \<longleftrightarrow> p = None \<and> evs = [] \<and> s = NilDeref"
  by (cases p) (auto simp: deref_def ok_def stop_def)

lemma emit_Inr [simp]: "emit evs (Inr (evs', x)) = Inr (evs @ evs', x)"
  by (simp add: emit_def)

lemma emit_Inl [simp]: "emit evs (Inl (evs', s)) = Inl (evs @ evs', s)"
  by (simp add: emit_def)

lemma connect_Inr:
  "connect w = Inr (evs, tokenData) \<Longrightarrow> ReadFile w (HOME w) ''.prbot-token'' = Inr tokenData"
  by (auto simp: connect_def attempt_def split: sum.splits)

lemma resolve_Inr:
  "resolve w owner repo = Inr (evs, origCommit) \<Longrightarrow>
     \<exists>ref obj. GetRef w owner repo ''refs/heads/master'' = Inr ref \<and> Object ref = Some obj
       \<and> Object_Type obj = Some ''commit'' \<and> Object_SHA obj = Some origCommit"
  by (auto simp: resolve_def branch_def fatal_def emit_Inr_iff
      split: sum.splits option.splits if_splits)

lemma fetch_tree_Inr:
  "fetch_tree w owner repo origCommit = Inr (evs, tree) \<Longrightarrow>
     GetTree w owner repo origCommit True = Inr tree \<and> Tree_SHA tree \<noteq> None"
  by (auto simp: fetch_tree_def emit_Inr_iff split: sum.splits option.splits)

lemma select_goFiles_Inr:
  "select_goFiles tree = Inr (evs, goFiles) \<Longrightarrow> goFiles = filter eligible (Entries tree)"
  by (auto simp: select_goFiles_def then_do_Inr_iff emit_Inr_iff dest: select_loop_Inr)

lemma gather_Inr:
  assumes "gather w sched owner repo = Inr (evs, g)"
  shows "\<exists>ref obj e.
     GetRef w owner repo ''refs/heads/master'' = Inr ref \<and> Object ref = Some obj
     \<and> Object_Type obj = Some ''commit'' \<and> Object_SHA obj = Some (g_origCommit g)
     \<and> GetTree w owner repo (g_origCommit g) True = Inr (g_tree g)
     \<and> Tree_SHA (g_tree g) \<noteq> None
     \<and> g_goFiles g = filter eligible (Entries (g_tree g))
     \<and> pool w owner repo sched 0 (g_goFiles g) [] = Inr (e, g_changes g)"
proof -
  from assms obtain e1 tokenData e2 origCommit e3 tree e4 goFiles e5 changes
    where "connect w = Inr (e1, tokenData)"
      and r: "resolve w owner repo = Inr (e2, origCommit)"
      and t: "fetch_tree w owner repo origCommit = Inr (e3, tree)"
      and s: "select_goFiles tree = Inr (e4, goFiles)"
      and p: "pool w owner repo sched 0 goFiles [] = Inr (e5, changes)"
      and g: "g = \<lparr>g_origCommit = origCommit, g_tree = tree, g_goFiles = goFiles,
                   g_changes = changes\<rparr>"
    unfolding gather_def by (auto simp: then_do_Inr_iff)
  from resolve_Inr [OF r] fetch_tree_Inr [OF t] select_goFiles_Inr [OF s] p g
  show ?thesis by auto
qed

lemma gather_reach:
  assumes "gather w sched owner repo = Inr (evs, g)"
  shows "reach w owner repo (g_goFiles g) ([], g_changes g)"
proof -
  from gather_Inr [OF assms] obtain e
    where "pool w owner repo sched 0 (g_goFiles g) [] = Inr (e, g_changes g)" by blast
  with reach.start show ?thesis by (rule pool_reach)
qed

lemma pool_Inr_mset:
  "pool w owner repo sched k pending changes = Inr (evs, changes') \<Longrightarrow>
     mset changes' = mset changes + mset (concat (map (spec_patch w owner repo) pending))"
proof (induction "length pending" arbitrary: k pending changes evs)
  case 0
  then show ?case by (simp add: pool_Nil)
next
  case (Suc n)
  define i where "i = sched k mod length pending"
  from Suc.hyps(2) have ne: "pending \<noteq> []" by auto
  then have i: "i < length pending" by (simp add: i_def)
  from Suc.prems ne obtain e1 st' e2
    where step: "pool_step w owner repo i (pending, changes) = Inr (e1, st')"
      and run: "pool w owner repo sched (Suc k) (fst st') (snd st') = Inr (e2, changes')"
    by (subst (asm) pool.simps) (auto simp: then_do_Inr_iff i_def)
  have st': "st' = (drop_at i pending, changes @ spec_patch w owner repo (pending ! i))"
    using step pool_step_result by blast
  have "n = length (fst st')"
    using Suc.hyps(2) i st' by (simp add: length_drop_at)
  from Suc.hyps(1) [OF this run]
  have "mset changes' = mset (changes @ spec_patch w owner repo (pending ! i))
      + mset (concat (map (spec_patch w owner repo) (drop_at i pending)))"
    by (simp add: st')
  then show ?case
    using mset_concat_drop_at [OF i, of "spec_patch w owner repo"] by simp
qed

lemma gather_changes:
  assumes "gather w sched owner repo = Inr (evs, g)"
  shows "mset (g_changes g) =
     mset (concat (map (spec_patch w owner repo) (filter eligible (Entries (g_tree g)))))"
proof -
  from gather_Inr [OF assms] obtain e
    where "pool w owner repo sched 0 (g_goFiles g) [] = Inr (e, g_changes g)"
      and "g_goFiles g = filter eligible (Entries (g_tree g))" by blast
  then show ?thesis using pool_Inr_mset by fastforce
qed

section \<open>The traces of the five creations\<close>

lemma trace_create_fork:
  "trace (create_fork w owner repo) =
     [Log ''Creating fork ...'' [], CreateFork_call owner repo] @
     (case CreateFork w owner repo of
        Inl e \<Rightarrow> [Fatal ''Creating fork: %v'' [S e]]
      | Inr fork \<Rightarrow>
          (case HTMLURL fork of None \<Rightarrow> [] | Some url \<Rightarrow> [Log ''Fork URL: %v'' [S url]]))"
  by (simp add: create_fork_def split: sum.splits option.splits)

lemma create_fork_Inr:
  "create_fork w owner repo = Inr (evs, fork, url) \<Longrightarrow>
     CreateFork w owner repo = Inr fork \<and> HTMLURL fork = Some url"
  by (auto simp: create_fork_def emit_Inr_iff split: sum.splits option.splits)

lemma create_fork_ok:
  "CreateFork w owner repo = Inr fork \<Longrightarrow> HTMLURL fork = Some url \<Longrightarrow>
     \<exists>evs. create_fork w owner repo = Inr (evs, fork, url)"
  by (simp add: create_fork_def ok_def)

lemma trace_create_tree:
  "trace (create_tree w fork tree changes) =
     Log ''Creating new tree ...'' [] #
     (case Owner fork of None \<Rightarrow> [] | Some forkOwner \<Rightarrow>
      case Login forkOwner of None \<Rightarrow> [] | Some login \<Rightarrow>
      case Name fork of None \<Rightarrow> [] | Some name \<Rightarrow>
      case Tree_SHA tree of None \<Rightarrow> [] | Some treeSHA \<Rightarrow>
        CreateTree_call login name treeSHA changes #
        (case CreateTree w login name treeSHA changes of
           Inl e \<Rightarrow> [Fatal ''Creating tree: %v'' [S e]]
         | Inr newTree \<Rightarrow>
             (case Tree_SHA newTree of None \<Rightarrow> []
              | Some newTreeSHA \<Rightarrow> [Log ''New tree: %s'' [S newTreeSHA]])))"
  by (simp add: create_tree_def split: sum.splits option.splits)

lemma create_tree_Inr:
  "create_tree w fork tree changes = Inr (evs, login, name, newTree) \<Longrightarrow>
     \<exists>forkOwner treeSHA. Owner fork = Some forkOwner \<and> Login forkOwner = Some login
       \<and> Name fork = Some name \<and> Tree_SHA tree = Some treeSHA
       \<and> CreateTree w login name treeSHA changes = Inr newTree"
  by (auto simp: create_tree_def emit_Inr_iff split: sum.splits option.splits)

lemma trace_create_commit:
  "trace (create_commit w login name newTree origCommit) =
     [Log ''Creating commit ...'' [],
      CreateCommit_call login name
        (Commit None (Some ''Run gofmt over Go source files.'')
           (Some \<lparr>Tree_SHA = Tree_SHA newTree, Entries = []\<rparr>)
           [Commit (Some origCommit) None None []])] @
     (case CreateCommit w login name
        (Commit None (Some ''Run gofmt over Go source files.'')
           (Some \<lparr>Tree_SHA = Tree_SHA newTree, Entries = []\<rparr>)
           [Commit (Some origCommit) None None []]) of
        Inl e \<Rightarrow> [Fatal ''Creating commit: %v'' [S e]]
      | Inr comm \<Rightarrow>
          (case Commit_SHA comm of None \<Rightarrow> [] | Some commSHA \<Rightarrow> [Log ''Commit: %s'' [S commSHA]]))"
  by (simp add: create_commit_def Let_def split: sum.splits option.splits)

lemma trace_create_branch:
  "trace (create_branch w login name comm forkURL) =
     [Log ''Creating branch ...'' [],
      CreateRef_call login name
        \<lparr>Ref = Some ''refs/heads/prbot-gofmt'',
         Object = Some \<lparr>Object_Type = Some ''commit'', Object_SHA = Commit_SHA comm\<rparr>\<rparr>] @
     (case CreateRef w login name
        \<lparr>Ref = Some ''refs/heads/prbot-gofmt'',
         Object = Some \<lparr>Object_Type = Some ''commit'', Object_SHA = Commit_SHA comm\<rparr>\<rparr> of
        Inl e \<Rightarrow> [Fatal ''Creating branch: %v'' [S e]]
      | Inr ref \<Rightarrow> [Log ''Branch URL: %s/tree/%s'' [S forkURL, S ''prbot-gofmt'']])"
  by (simp add: create_branch_def Let_def prBranch_def split: sum.splits option.splits)

lemma trace_create_pull_request:
  "trace (create_pull_request w owner repo login) =
     [Log ''Creating pull request ...'' [],
      CreatePullRequest_call owner repo
        \<lparr>Title = Some ''gofmt everything'', Head = Some (login @ '':prbot-gofmt''),
         Base = Some ''master'',
         Body = Some ''I ran gofmt over this repository using prbot, an automated tool.''\<rparr>] @
     (case CreatePullRequest w owner repo
        \<lparr>Title = Some ''gofmt everything'', Head = Some (login @ '':prbot-gofmt''),
         Base = Some ''master'',
         Body = Some ''I ran gofmt over this repository using prbot, an automated tool.''\<rparr> of
        Inl e \<Rightarrow> [Fatal ''Creating pull request: %v'' [S e]]
      | Inr pr \<Rightarrow>
          (case PR_HTMLURL pr of None \<Rightarrow> [] | Some prURL \<Rightarrow> [Log ''Pull request: %s'' [S prURL]]))"
  by (simp add: create_pull_request_def Let_def prBranch_def branch_def log_def
      split: sum.splits option.splits)

lemma trace_publish:
  "trace (publish w owner repo g) =
     Log ''Found %d Go source files that need changes'' [D (int (length (g_changes g)))] #
     (if g_changes g = [] then []
      else trace (create_fork w owner repo) @
        (case create_fork w owner repo of Inl r \<Rightarrow> []
         | Inr (e1, fork, forkURL) \<Rightarrow>
           trace (create_tree w fork (g_tree g) (g_changes g)) @
           (case create_tree w fork (g_tree g) (g_changes g) of Inl r \<Rightarrow> []
            | Inr (e2, login, name, newTree) \<Rightarrow>
              trace (create_commit w login name newTree (g_origCommit g)) @
              (case create_commit w login name newTree (g_origCommit g) of Inl r \<Rightarrow> []
               | Inr (e3, comm) \<Rightarrow>
                 trace (create_branch w login name comm forkURL) @
                 (case create_branch w login name comm forkURL of Inl r \<Rightarrow> []
                  | Inr (e4, ref) \<Rightarrow> trace (create_pull_request w owner repo login))))))"
  by (simp add: publish_def trace_then_do split: sum.splits prod.splits)

section \<open>The whole run\<close>

lemma main_parsed:
  assumes "arguments argv = Inr (e0, owner, repo)"
  shows "main w sched argv = finish (run w sched owner repo)"
proof -
  from assms have "e0 = []" by (rule arguments_Inr)
  with assms show ?thesis by (simp add: main_def)
qed

lemma main_not_parsed:
  assumes "arguments argv = Inl r"
  shows "main w sched argv = r"
  using assms by (simp add: main_def finish_def)

lemma trace_run_gathered:
  assumes "gather w sched owner repo = Inr (e1, g)"
  shows "trace (run w sched owner repo) = e1 @ trace (publish w owner repo g)"
  using assms by (simp add: run_def)

lemma trace_run_not_gathered:
  assumes "gather w sched owner repo = Inl (e1, s)"
  shows "trace (run w sched owner repo) = e1" and "list_all is_read e1"
  using assms reads_gather [of w sched owner repo] by (simp_all add: run_def all_events_def)

lemma gathered_reads:
  assumes "gather w sched owner repo = Inr (e1, g)"
  shows "list_all is_read e1"
  using assms reads_gather [of w sched owner repo] by (simp add: all_events_def)

text \<open>
  Claim C3. When the arguments are valid and the run reaches line 128 with an empty
  changeset, \<open>main\<close> returns (exit status 0) and its trace holds no remote write: no
  creation of a fork, a tree, a commit, a branch or a pull request.
\<close>

theorem empty_changeset_no_writes:
  assumes "arguments args = Inr (e0, owner, repo)"
    and "gather w sched owner repo = Inr (e1, g)"
    and "g_changes g = []"
  shows "snd (main w sched args) = Exit 0
         \<and> (\<forall>ev\<in>set (fst (main w sched args)). \<not> is_write ev)"
proof -
  have m: "main w sched args = finish (run w sched owner repo)"
    using assms(1) by (rule main_parsed)
  have p: "publish w owner repo g =
      Inr ([Log ''Found %d Go source files that need changes'' [D 0]], ())"
    using assms(3) by (simp add: publish_def ok_def)
  have r: "run w sched owner repo =
      Inr (e1 @ [Log ''Found %d Go source files that need changes'' [D 0]], ())"
    using assms(2) p by (simp add: run_def)
  have "list_all is_read e1" using assms(2) by (rule gathered_reads)
  then have "\<forall>ev\<in>set (e1 @ [Log ''Found %d Go source files that need changes'' [D 0]]). \<not> is_write ev"
    by (auto simp: list_all_iff dest: is_read_not_write)
  with m r show ?thesis by (simp add: finish_def)
qed

text \<open>If no candidate has a patch, the changeset a completed gathering returns is empty.\<close>

lemma unchanged_candidates_empty_changeset:
  assumes "gather w sched owner repo = Inr (e1, g)"
    and "\<forall>te\<in>set (filter eligible (Entries (g_tree g))). spec_patch w owner repo te = []"
  shows "g_changes g = []"
proof -
  have "concat (map (spec_patch w owner repo) (filter eligible (Entries (g_tree g)))) = []"
    using assms(2) by simp
  with gather_changes [OF assms(1)] show ?thesis by simp
qed

lemma select_example:
  "select_goFiles example_tree =
     Inr ([Log ''Warning: Skipping %s because it is too big'' [S ''pkg/big.go''],
           Log ''Found %d Go source files'' [D 2]], [entry_a, entry_b])"
  by (simp add: select_goFiles_def example_tree_def entry_a_def entry_pkg_def entry_big_def
      entry_readme_def entry_b_def HasSuffix_def ok_def emit_def log_def)

lemma gather_canonical:
  "\<exists>e1. gather canonical_world (\<lambda>k. 0) ''o'' ''r'' =
     Inr (e1, \<lparr>g_origCommit = ''c0'', g_tree = example_tree, g_goFiles = [entry_a, entry_b],
               g_changes = []\<rparr>)"
proof -
  have p: "\<exists>e. pool canonical_world ''o'' ''r'' (\<lambda>k. 0) 0 [entry_a, entry_b] [] = Inr (e, [])"
    by (simp add: pool_Cons pool_Nil pool_step_def drop_at_def worker_def rawBlob_def Let_def
        canonical_world_def example_world_def entry_a_def entry_b_def ok_def emit_def)
  have t: "Tree_SHA example_tree = Some ''t0''" "length (Entries example_tree) = 5"
    by (simp_all add: example_tree_def)
  from p obtain e where "pool canonical_world ''o'' ''r'' (\<lambda>k. 0) 0 [entry_a, entry_b] [] = Inr (e, [])"
    by blast
  then show ?thesis
    by (simp add: gather_def connect_def resolve_def fetch_tree_def select_example t
        canonical_world_def example_world_def branch_def ok_def emit_def log_def attempt_def)
qed

theorem empty_changeset_no_writes_witness:
  "arguments [''o/r''] = Inr ([], ''o'', ''r'')
   \<and> (\<exists>e1 g. gather canonical_world (\<lambda>k. 0) ''o'' ''r'' = Inr (e1, g) \<and> g_changes g = [])
   \<and> snd (main canonical_world (\<lambda>k. 0) [''o/r'']) = Exit 0
   \<and> filter is_write (fst (main canonical_world (\<lambda>k. 0) [''o/r''])) = []"
proof -
  have p: "arguments [''o/r''] = Inr ([], ''o'', ''r'')"
    by (rule arguments_example)
  obtain e1 g where g: "gather canonical_world (\<lambda>k. 0) ''o'' ''r'' = Inr (e1, g)"
    and c: "g_changes g = []"
    using gather_canonical by fastforce
  from empty_changeset_no_writes [OF p g c] p g c show ?thesis
    by (auto simp: filter_empty_conv)
qed

section \<open>The calls that create the tree, the commit and the pull request\<close>

lemma creations_are_writes:
  "is_CreateTree ev \<Longrightarrow> is_write ev"
  "is_CreateCommit ev \<Longrightarrow> is_write ev"
  "is_CreatePullRequest ev \<Longrightarrow> is_write ev"
  by (cases ev; simp)+

lemma filter_reads:
  assumes "list_all is_read evs" and "\<And>ev. X ev \<Longrightarrow> is_write ev"
  shows "filter X evs = []"
  using assms by (auto simp: filter_empty_conv list_all_iff dest: is_read_not_write)

text \<open>Only what follows a completed gathering can hold a write.\<close>

lemma filter_main:
  assumes "\<And>ev. X ev \<Longrightarrow> is_write ev"
  shows "filter X (fst (main w sched args)) =
     (case arguments args of
        Inl r \<Rightarrow> []
      | Inr (e0, owner, repo) \<Rightarrow>
          (case gather w sched owner repo of
             Inl r \<Rightarrow> []
           | Inr (e1, g) \<Rightarrow> filter X (trace (publish w owner repo g))))"
proof (cases "arguments args")
  case (Inl r)
  then obtain e0 s where r: "arguments args = Inl (e0, s)" by (cases r) auto
  have "\<not> X ev" if "is_Print ev" for ev
    using that assms [of ev] by (cases ev) auto
  with arguments_Inl [OF r] have "filter X e0 = []"
    by (auto simp: filter_empty_conv list_all_iff)
  with r show ?thesis by (simp add: main_not_parsed)
next
  case (Inr p)
  then obtain e0 owner repo where p: "arguments args = Inr (e0, owner, repo)"
    by (cases p) auto
  show ?thesis
  proof (cases "gather w sched owner repo")
    case (Inl r)
    then obtain e1 s where g: "gather w sched owner repo = Inl (e1, s)" by (cases r) auto
    from trace_run_not_gathered [OF g] assms have "filter X (trace (run w sched owner repo)) = []"
      by (simp add: filter_reads)
    with p g show ?thesis by (simp add: main_parsed)
  next
    case (Inr q)
    then obtain e1 g where g: "gather w sched owner repo = Inr (e1, g)" by (cases q) auto
    from gathered_reads [OF g] assms have "filter X e1 = []" by (rule filter_reads)
    with p g show ?thesis by (simp add: main_parsed trace_run_gathered)
  qed
qed

lemma filter_create_fork:
  "filter is_CreateTree (trace (create_fork w owner repo)) = []"
  "filter is_CreateCommit (trace (create_fork w owner repo)) = []"
  "filter is_CreatePullRequest (trace (create_fork w owner repo)) = []"
  by (simp_all add: trace_create_fork split: sum.splits option.splits)

lemma filter_create_tree:
  "filter is_CreateTree (trace (create_tree w fork tree changes)) =
     (case Owner fork of None \<Rightarrow> [] | Some forkOwner \<Rightarrow>
      case Login forkOwner of None \<Rightarrow> [] | Some login \<Rightarrow>
      case Name fork of None \<Rightarrow> [] | Some name \<Rightarrow>
      case Tree_SHA tree of None \<Rightarrow> [] | Some treeSHA \<Rightarrow>
        [CreateTree_call login name treeSHA changes])"
  "filter is_CreateCommit (trace (create_tree w fork tree changes)) = []"
  "filter is_CreatePullRequest (trace (create_tree w fork tree changes)) = []"
  by (simp_all add: trace_create_tree split: sum.splits option.splits)

lemma filter_create_commit:
  "filter is_CreateTree (trace (create_commit w login name newTree origCommit)) = []"
  "filter is_CreateCommit (trace (create_commit w login name newTree origCommit)) =
     [CreateCommit_call login name
        (Commit None (Some ''Run gofmt over Go source files.'')
           (Some \<lparr>Tree_SHA = Tree_SHA newTree, Entries = []\<rparr>)
           [Commit (Some origCommit) None None []])]"
  "filter is_CreatePullRequest (trace (create_commit w login name newTree origCommit)) = []"
  by (simp_all add: trace_create_commit split: sum.splits option.splits)

lemma filter_create_branch:
  "filter is_CreateTree (trace (create_branch w login name comm forkURL)) = []"
  "filter is_CreateCommit (trace (create_branch w login name comm forkURL)) = []"
  "filter is_CreatePullRequest (trace (create_branch w login name comm forkURL)) = []"
  by (simp_all add: trace_create_branch split: sum.splits option.splits)

lemma filter_create_pull_request:
  "filter is_CreateTree (trace (create_pull_request w owner repo login)) = []"
  "filter is_CreateCommit (trace (create_pull_request w owner repo login)) = []"
  "filter is_CreatePullRequest (trace (create_pull_request w owner repo login)) =
     [CreatePullRequest_call owner repo
        \<lparr>Title = Some ''gofmt everything'', Head = Some (login @ '':prbot-gofmt''),
         Base = Some ''master'',
         Body = Some ''I ran gofmt over this repository using prbot, an automated tool.''\<rparr>]"
  by (simp_all add: trace_create_pull_request split: sum.splits option.splits)

lemmas filter_creations =
  filter_create_fork filter_create_tree filter_create_commit filter_create_branch
  filter_create_pull_request

lemma filter_tree_publish:
  "filter is_CreateTree (trace (publish w owner repo g)) =
     (if g_changes g = [] then []
      else case create_fork w owner repo of
             Inl r \<Rightarrow> []
           | Inr (e1, fork, forkURL) \<Rightarrow>
               filter is_CreateTree (trace (create_tree w fork (g_tree g) (g_changes g))))"
  by (simp add: trace_publish filter_creations(1-3,5-15)
      sum.case_distrib [of "filter is_CreateTree"] prod.case_distrib [of "filter is_CreateTree"]
      cong: sum.case_cong prod.case_cong)

lemma filter_commit_publish:
  "filter is_CreateCommit (trace (publish w owner repo g)) =
     (if g_changes g = [] then []
      else case create_fork w owner repo of
             Inl r \<Rightarrow> []
           | Inr (e1, fork, forkURL) \<Rightarrow>
               (case create_tree w fork (g_tree g) (g_changes g) of
                  Inl r \<Rightarrow> []
                | Inr (e2, login, name, newTree) \<Rightarrow>
                    [CreateCommit_call login name
                       (Commit None (Some ''Run gofmt over Go source files.'')
                          (Some \<lparr>Tree_SHA = Tree_SHA newTree, Entries = []\<rparr>)
                          [Commit (Some (g_origCommit g)) None None []])]))"
  by (simp add: trace_publish filter_creations
      sum.case_distrib [of "filter is_CreateCommit"] prod.case_distrib [of "filter is_CreateCommit"]
      cong: sum.case_cong prod.case_cong)

lemma filter_pull_request_publish:
  "filter is_CreatePullRequest (trace (publish w owner repo g)) =
     (if g_changes g = [] then []
      else case create_fork w owner repo of
             Inl r \<Rightarrow> []
           | Inr (e1, fork, forkURL) \<Rightarrow>
               (case create_tree w fork (g_tree g) (g_changes g) of
                  Inl r \<Rightarrow> []
                | Inr (e2, login, name, newTree) \<Rightarrow>
                    (case create_commit w login name newTree (g_origCommit g) of
                       Inl r \<Rightarrow> []
                     | Inr (e3, comm) \<Rightarrow>
                         (case create_branch w login name comm forkURL of
                            Inl r \<Rightarrow> []
                          | Inr (e4, ref) \<Rightarrow>
                              [CreatePullRequest_call owner repo
                                 \<lparr>Title = Some ''gofmt everything'',
                                  Head = Some (login @ '':prbot-gofmt''),
                                  Base = Some ''master'',
                                  Body = Some ''I ran gofmt over this repository using prbot, an automated tool.''\<rparr>]))))"
  by (simp add: trace_publish filter_creations
      sum.case_distrib [of "filter is_CreatePullRequest"]
      prod.case_distrib [of "filter is_CreatePullRequest"]
      cong: sum.case_cong prod.case_cong)

lemma create_tree_Inr_SHA:
  "create_tree w fork tree changes = Inr (evs, login, name, newTree) \<Longrightarrow>
     \<exists>newTreeSHA. Tree_SHA newTree = Some newTreeSHA"
  by (auto simp: create_tree_def emit_Inr_iff split: sum.splits option.splits)

text \<open>
  Claim C6. Every call that creates a commit is made in the fork (under the login and the
  name that the fork creation returned), with the fixed message, with the id of the tree
  that the tree creation just returned, and with one parent: the commit id that resolving
  \<^verbatim>\<open>refs/heads/master\<close> in the original repository returned.
\<close>

theorem commit_shape:
  assumes "CreateCommit_call login name c \<in> set (fst (main w sched args))"
  shows "\<exists>e0 owner repo e1 g ref obj fork forkOwner treeSHA newTree newTreeSHA.
       arguments args = Inr (e0, owner, repo)
     \<and> gather w sched owner repo = Inr (e1, g)
     \<and> GetRef w owner repo ''refs/heads/master'' = Inr ref \<and> Object ref = Some obj
     \<and> Object_SHA obj = Some (g_origCommit g)
     \<and> CreateFork w owner repo = Inr fork \<and> Owner fork = Some forkOwner
     \<and> Login forkOwner = Some login \<and> Name fork = Some name
     \<and> Tree_SHA (g_tree g) = Some treeSHA
     \<and> CreateTree w login name treeSHA (g_changes g) = Inr newTree
     \<and> Tree_SHA newTree = Some newTreeSHA
     \<and> c = Commit None (Some ''Run gofmt over Go source files.'')
              (Some \<lparr>Tree_SHA = Some newTreeSHA, Entries = []\<rparr>)
              [Commit (Some (g_origCommit g)) None None []]"
proof -
  from assms have mem: "CreateCommit_call login name c
      \<in> set (filter is_CreateCommit (fst (main w sched args)))" by simp
  then obtain e0 owner repo where p: "arguments args = Inr (e0, owner, repo)"
    by (cases "arguments args") (auto simp: filter_main creations_are_writes)
  with mem obtain e1 g where g: "gather w sched owner repo = Inr (e1, g)"
    by (cases "gather w sched owner repo") (auto simp: filter_main creations_are_writes)
  from mem p g have pub: "CreateCommit_call login name c
      \<in> set (filter is_CreateCommit (trace (publish w owner repo g)))"
    by (simp add: filter_main creations_are_writes)
  then have ne: "g_changes g \<noteq> []"
    by (auto simp: filter_commit_publish split: if_splits)
  with pub obtain e2 fork forkURL where f: "create_fork w owner repo = Inr (e2, fork, forkURL)"
    by (cases "create_fork w owner repo") (auto simp: filter_commit_publish)
  with pub ne obtain e3 login' name' newTree
    where t: "create_tree w fork (g_tree g) (g_changes g) = Inr (e3, login', name', newTree)"
    by (cases "create_tree w fork (g_tree g) (g_changes g)") (auto simp: filter_commit_publish)
  from pub ne f t have eq: "login' = login" "name' = name"
    "c = Commit None (Some ''Run gofmt over Go source files.'')
           (Some \<lparr>Tree_SHA = Tree_SHA newTree, Entries = []\<rparr>)
           [Commit (Some (g_origCommit g)) None None []]"
    by (simp_all add: filter_commit_publish)
  from gather_Inr [OF g] obtain ref obj
    where "GetRef w owner repo ''refs/heads/master'' = Inr ref" "Object ref = Some obj"
      "Object_SHA obj = Some (g_origCommit g)" by blast
  moreover from create_fork_Inr [OF f] have "CreateFork w owner repo = Inr fork" by simp
  moreover from create_tree_Inr [OF t] eq obtain forkOwner treeSHA
    where "Owner fork = Some forkOwner" "Login forkOwner = Some login" "Name fork = Some name"
      "Tree_SHA (g_tree g) = Some treeSHA"
      "CreateTree w login name treeSHA (g_changes g) = Inr newTree" by auto
  moreover from create_tree_Inr_SHA [OF t] obtain newTreeSHA
    where "Tree_SHA newTree = Some newTreeSHA" by blast
  ultimately show ?thesis using p g eq(3) by (intro exI conjI) simp_all
qed

subsection \<open>The run on the example world\<close>

lemma pool_example:
  "pool example_world ''o'' ''r'' (\<lambda>k. 0) 0 [entry_a, entry_b] [] =
     Inr ([Do_call \<lparr>Method = ''GET'', URL = ''repos/o/r/git/blobs/1111111111'',
                     Accept = Some ''application/vnd.github.v3.raw''\<rparr>,
           Log ''(%s) needs gofmt'ing!'' [S ''a.go 1111111''],
           Do_call \<lparr>Method = ''GET'', URL = ''repos/o/r/git/blobs/5555555555'',
                     Accept = Some ''application/vnd.github.v3.raw''\<rparr>,
           Log ''Fetching blob (%s): %v'' [S ''pkg/b.go 5555555'', S ''404 Not Found'']],
          [patched_a])"
  by (simp add: pool_Cons pool_Nil pool_step_def drop_at_def worker_def rawBlob_def Let_def
      add_def example_world_def entry_a_def entry_b_def patched_a_def ok_def emit_def)

lemma gather_example:
  "gather example_world (\<lambda>k. 0) ''o'' ''r'' =
     Inr ([ReadFile_call ''/home/bot'' ''.prbot-token'',
           Log ''Resolving branch %s in github.com/%s/%s ...'' [S ''master'', S ''o'', S ''r''],
           GetRef_call ''o'' ''r'' ''refs/heads/master'',
           Log ''Fetching tree for github.com/%s/%s @ %s ...'' [S ''o'', S ''r'', S ''c0''],
           GetTree_call ''o'' ''r'' ''c0'' True,
           Log ''Original tree with %d entries: %s ...'' [D 5, S ''t0''],
           Log ''Warning: Skipping %s because it is too big'' [S ''pkg/big.go''],
           Log ''Found %d Go source files'' [D 2],
           Do_call \<lparr>Method = ''GET'', URL = ''repos/o/r/git/blobs/1111111111'',
                     Accept = Some ''application/vnd.github.v3.raw''\<rparr>,
           Log ''(%s) needs gofmt'ing!'' [S ''a.go 1111111''],
           Do_call \<lparr>Method = ''GET'', URL = ''repos/o/r/git/blobs/5555555555'',
                     Accept = Some ''application/vnd.github.v3.raw''\<rparr>,
           Log ''Fetching blob (%s): %v'' [S ''pkg/b.go 5555555'', S ''404 Not Found'']],
          example_gathered)"
proof -
  have t: "Tree_SHA example_tree = Some ''t0''" "length (Entries example_tree) = 5"
    by (simp_all add: example_tree_def)
  have w: "ReadFile example_world = (\<lambda>dir name. Inr ''token'')"
    "HOME example_world = ''/home/bot''"
    "GetRef example_world = (\<lambda>owner repo ref.
        Inr \<lparr>Ref = Some ref,
             Object = Some \<lparr>Object_Type = Some ''commit'', Object_SHA = Some ''c0''\<rparr>\<rparr>)"
    "GetTree example_world = (\<lambda>owner repo sha recursive. Inr example_tree)"
    by (simp_all add: example_world_def)
  show ?thesis
    by (simp add: gather_def connect_def resolve_def fetch_tree_def select_example t w
        pool_example branch_def ok_def emit_def log_def attempt_def example_gathered_def)
qed

lemma Path_patched_a: "Path patched_a = Some ''a.go''"
  by (simp add: patched_a_def)

lemma publish_example:
  "publish example_world ''o'' ''r'' example_gathered =
     Inr ([Log ''Found %d Go source files that need changes'' [D 1],
           Log ''Creating fork ...'' [],
           CreateFork_call ''o'' ''r'',
           Log ''Fork URL: %v'' [S ''https://github.com/bot/r''],
           Log ''Creating new tree ...'' [],
           CreateTree_call ''bot'' ''r'' ''t0'' [patched_a],
           Log ''New tree: %s'' [S ''t1''],
           Log ''Creating commit ...'' [],
           CreateCommit_call ''bot'' ''r''
             (Commit None (Some ''Run gofmt over Go source files.'')
                (Some \<lparr>Tree_SHA = Some ''t1'', Entries = []\<rparr>)
                [Commit (Some ''c0'') None None []]),
           Log ''Commit: %s'' [S ''c1''],
           Log ''Creating branch ...'' [],
           CreateRef_call ''bot'' ''r''
             \<lparr>Ref = Some ''refs/heads/prbot-gofmt'',
              Object = Some \<lparr>Object_Type = Some ''commit'', Object_SHA = Some ''c1''\<rparr>\<rparr>,
           Log ''Branch URL: %s/tree/%s'' [S ''https://github.com/bot/r'', S ''prbot-gofmt''],
           Log ''Creating pull request ...'' [],
           CreatePullRequest_call ''o'' ''r''
             \<lparr>Title = Some ''gofmt everything'', Head = Some ''bot:prbot-gofmt'',
              Base = Some ''master'',
              Body = Some ''I ran gofmt over this repository using prbot, an automated tool.''\<rparr>,
           Log ''Pull request: %s'' [S ''https://github.com/o/r/pull/1'']], ())"
proof -
  have t: "Tree_SHA example_tree = Some ''t0''"
    by (simp add: example_tree_def)
  show ?thesis
    by (simp add: publish_def create_fork_def create_tree_def create_commit_def
        create_branch_def create_pull_request_def example_gathered_def t example_world_def
        prBranch_def branch_def Let_def ok_def emit_def log_def Path_patched_a)
qed

lemma main_example:
  "main example_world (\<lambda>k. 0) [''o/r''] =
     finish (then_do (gather example_world (\<lambda>k. 0) ''o'' ''r'')
       (publish example_world ''o'' ''r''))"
  using main_parsed [OF arguments_example]
  by (simp add: run_def ok_def)

theorem commit_shape_witness:
  "CreateCommit_call ''bot'' ''r''
     (Commit None (Some ''Run gofmt over Go source files.'')
        (Some \<lparr>Tree_SHA = Some ''t1'', Entries = []\<rparr>)
        [Commit (Some ''c0'') None None []])
     \<in> set (fst (main example_world (\<lambda>k. 0) [''o/r'']))
   \<and> GetRef example_world ''o'' ''r'' ''refs/heads/master'' =
       Inr \<lparr>Ref = Some ''refs/heads/master'',
            Object = Some \<lparr>Object_Type = Some ''commit'', Object_SHA = Some ''c0''\<rparr>\<rparr>
   \<and> CreateTree example_world ''bot'' ''r'' ''t0'' [patched_a] =
       Inr \<lparr>Tree_SHA = Some ''t1'', Entries = []\<rparr>"
proof -
  have mem: "CreateCommit_call ''bot'' ''r''
     (Commit None (Some ''Run gofmt over Go source files.'')
        (Some \<lparr>Tree_SHA = Some ''t1'', Entries = []\<rparr>)
        [Commit (Some ''c0'') None None []])
     \<in> set (fst (main example_world (\<lambda>k. 0) [''o/r'']))"
    by (simp add: main_example gather_example publish_example)
  from commit_shape [OF mem] mem show ?thesis
    by (simp add: example_world_def Path_patched_a)
qed

lemma create_pull_request_ok:
  assumes "CreatePullRequest w owner repo
      \<lparr>Title = Some ''gofmt everything'', Head = Some (login @ '':prbot-gofmt''),
       Base = Some ''master'',
       Body = Some ''I ran gofmt over this repository using prbot, an automated tool.''\<rparr> = Inr pr"
    and "PR_HTMLURL pr = Some url"
  shows "create_pull_request w owner repo login =
     Inr ([Log ''Creating pull request ...'' [],
           CreatePullRequest_call owner repo
             \<lparr>Title = Some ''gofmt everything'', Head = Some (login @ '':prbot-gofmt''),
              Base = Some ''master'',
              Body = Some ''I ran gofmt over this repository using prbot, an automated tool.''\<rparr>,
           Log ''Pull request: %s'' [S url]], ())"
  using assms by (simp add: create_pull_request_def Let_def prBranch_def branch_def log_def ok_def)

lemma publish_completes:
  assumes "g_changes g \<noteq> []"
    and "create_fork w owner repo = Inr (e1, fork, forkURL)"
    and "create_tree w fork (g_tree g) (g_changes g) = Inr (e2, login, name, newTree)"
    and "create_commit w login name newTree (g_origCommit g) = Inr (e3, comm)"
    and "create_branch w login name comm forkURL = Inr (e4, ref)"
    and "create_pull_request w owner repo login = Inr (e5 @ [ev], ())"
  shows "\<exists>evs. publish w owner repo g = Inr (evs @ [ev], ())"
proof -
  have "publish w owner repo g =
      Inr ((Log ''Found %d Go source files that need changes'' [D (int (length (g_changes g)))]
            # e1 @ e2 @ e3 @ e4 @ e5) @ [ev], ())"
    using assms by (simp add: publish_def)
  then show ?thesis by blast
qed

text \<open>
  Claim C7. Every call that creates a pull request is made on the repository named by the
  argument (the original one, not the fork), with the fixed title and body, with base
  \<^verbatim>\<open>master\<close> and with head the login of the fork's owner, a colon and
  \<^verbatim>\<open>prbot-gofmt\<close>. When the call returns a pull request with its URL, the line that
  prints this URL is the last event of the run, which ends with status 0.
\<close>

theorem pull_request_shape:
  assumes "CreatePullRequest_call owner repo newPR \<in> set (fst (main w sched args))"
  shows "\<exists>e0 fork forkOwner login.
       arguments args = Inr (e0, owner, repo)
     \<and> CreateFork w owner repo = Inr fork \<and> Owner fork = Some forkOwner
     \<and> Login forkOwner = Some login
     \<and> newPR = \<lparr>Title = Some ''gofmt everything'', Head = Some (login @ '':'' @ ''prbot-gofmt''),
                 Base = Some ''master'',
                 Body = Some ''I ran gofmt over this repository using prbot, an automated tool.''\<rparr>
     \<and> (\<forall>pr url. CreatePullRequest w owner repo newPR = Inr pr \<and> PR_HTMLURL pr = Some url \<longrightarrow>
            snd (main w sched args) = Exit 0
            \<and> last (fst (main w sched args)) = Log ''Pull request: %s'' [S url])"
proof -
  let ?npr = "\<lambda>login. \<lparr>Title = Some ''gofmt everything'', Head = Some (login @ '':prbot-gofmt''),
       Base = Some ''master'',
       Body = Some ''I ran gofmt over this repository using prbot, an automated tool.''\<rparr>"
  from assms have mem: "CreatePullRequest_call owner repo newPR
      \<in> set (filter is_CreatePullRequest (fst (main w sched args)))" by simp
  then obtain e0 owner' repo' where p: "arguments args = Inr (e0, owner', repo')"
    by (cases "arguments args") (auto simp: filter_main creations_are_writes)
  with mem obtain e1 g where g: "gather w sched owner' repo' = Inr (e1, g)"
    by (cases "gather w sched owner' repo'") (auto simp: filter_main creations_are_writes)
  from mem p g have pub: "CreatePullRequest_call owner repo newPR
      \<in> set (filter is_CreatePullRequest (trace (publish w owner' repo' g)))"
    by (simp add: filter_main creations_are_writes)
  then have ne: "g_changes g \<noteq> []"
    by (auto simp: filter_pull_request_publish split: if_splits)
  with pub obtain e2 fork forkURL where f: "create_fork w owner' repo' = Inr (e2, fork, forkURL)"
    by (cases "create_fork w owner' repo'") (auto simp: filter_pull_request_publish)
  with pub ne obtain e3 login name newTree
    where t: "create_tree w fork (g_tree g) (g_changes g) = Inr (e3, login, name, newTree)"
    by (cases "create_tree w fork (g_tree g) (g_changes g)")
       (auto simp: filter_pull_request_publish)
  with pub ne f obtain e4 comm
    where c: "create_commit w login name newTree (g_origCommit g) = Inr (e4, comm)"
    by (cases "create_commit w login name newTree (g_origCommit g)")
       (auto simp: filter_pull_request_publish)
  with pub ne f t obtain e5 ref
    where b: "create_branch w login name comm forkURL = Inr (e5, ref)"
    by (cases "create_branch w login name comm forkURL")
       (auto simp: filter_pull_request_publish)
  from pub ne f t c b have eq: "owner' = owner" "repo' = repo" "newPR = ?npr login"
    by (simp_all add: filter_pull_request_publish)
  have last: "snd (main w sched args) = Exit 0
      \<and> last (fst (main w sched args)) = Log ''Pull request: %s'' [S url]"
    if "CreatePullRequest w owner repo newPR = Inr pr" and "PR_HTMLURL pr = Some url" for pr url
  proof -
    from that eq have "create_pull_request w owner' repo' login =
        Inr ([Log ''Creating pull request ...'' [],
              CreatePullRequest_call owner' repo' (?npr login)]
             @ [Log ''Pull request: %s'' [S url]], ())"
      using create_pull_request_ok [of w owner' repo' login pr url] by simp
    from publish_completes [OF ne f t c b this] obtain evs
      where "publish w owner' repo' g = Inr (evs @ [Log ''Pull request: %s'' [S url]], ())"
      by blast
    with p g show ?thesis by (simp add: main_parsed run_def finish_def)
  qed
  from create_fork_Inr [OF f] have "CreateFork w owner repo = Inr fork" using eq by simp
  moreover from create_tree_Inr [OF t] obtain forkOwner
    where "Owner fork = Some forkOwner" "Login forkOwner = Some login" by blast
  ultimately show ?thesis using p eq last by (intro exI conjI) simp_all
qed

theorem pull_request_shape_witness:
  "CreatePullRequest_call ''o'' ''r''
     \<lparr>Title = Some ''gofmt everything'', Head = Some ''bot:prbot-gofmt'', Base = Some ''master'',
      Body = Some ''I ran gofmt over this repository using prbot, an automated tool.''\<rparr>
     \<in> set (fst (main example_world (\<lambda>k. 0) [''o/r'']))
   \<and> CreatePullRequest example_world ''o'' ''r''
       \<lparr>Title = Some ''gofmt everything'', Head = Some ''bot:prbot-gofmt'', Base = Some ''master'',
        Body = Some ''I ran gofmt over this repository using prbot, an automated tool.''\<rparr>
      = Inr \<lparr>PR_HTMLURL = Some ''https://github.com/o/r/pull/1''\<rparr>
   \<and> snd (main example_world (\<lambda>k. 0) [''o/r'']) = Exit 0
   \<and> last (fst (main example_world (\<lambda>k. 0) [''o/r'']))
      = Log ''Pull request: %s'' [S ''https://github.com/o/r/pull/1'']"
proof -
  have mem: "CreatePullRequest_call ''o'' ''r''
     \<lparr>Title = Some ''gofmt everything'', Head = Some ''bot:prbot-gofmt'', Base = Some ''master'',
      Body = Some ''I ran gofmt over this repository using prbot, an automated tool.''\<rparr>
     \<in> set (fst (main example_world (\<lambda>k. 0) [''o/r'']))"
    by (simp add: main_example gather_example publish_example)
  have pr: "CreatePullRequest example_world ''o'' ''r''
       \<lparr>Title = Some ''gofmt everything'', Head = Some ''bot:prbot-gofmt'', Base = Some ''master'',
        Body = Some ''I ran gofmt over this repository using prbot, an automated tool.''\<rparr>
      = Inr \<lparr>PR_HTMLURL = Some ''https://github.com/o/r/pull/1''\<rparr>"
    by (simp add: example_world_def)
  from pull_request_shape [OF mem] mem pr show ?thesis
    by auto
qed

section \<open>The creation of the tree\<close>

lemma gather_fork_refused:
  "\<exists>e1. gather fork_refused_world (\<lambda>k. 0) ''o'' ''r'' = Inr (e1, example_gathered)"
proof -
  have p: "\<exists>e. pool fork_refused_world ''o'' ''r'' (\<lambda>k. 0) 0 [entry_a, entry_b] [] =
      Inr (e, [patched_a])"
    by (simp add: pool_Cons pool_Nil pool_step_def drop_at_def worker_def rawBlob_def Let_def
        add_def fork_refused_world_def example_world_def entry_a_def entry_b_def patched_a_def
        ok_def emit_def)
  have t: "Tree_SHA example_tree = Some ''t0''" "length (Entries example_tree) = 5"
    by (simp_all add: example_tree_def)
  from p obtain e
    where "pool fork_refused_world ''o'' ''r'' (\<lambda>k. 0) 0 [entry_a, entry_b] [] = Inr (e, [patched_a])"
    by blast
  then show ?thesis
    by (simp add: gather_def connect_def resolve_def fetch_tree_def select_example t
        fork_refused_world_def example_world_def branch_def ok_def emit_def log_def attempt_def
        example_gathered_def)
qed

lemma publish_fork_refused:
  "publish fork_refused_world ''o'' ''r'' example_gathered =
     Inl ([Log ''Found %d Go source files that need changes'' [D 1],
           Log ''Creating fork ...'' [],
           CreateFork_call ''o'' ''r'',
           Fatal ''Creating fork: %v'' [S ''403 Forbidden'']], Exit 1)"
  by (simp add: publish_def create_fork_def example_gathered_def fork_refused_world_def
      example_world_def stop_def emit_def log_def)

text \<open>
  Claim C5 says that tree creation is invoked exactly once whenever the changeset is not
  empty. Here the changeset holds one entry, the fork is refused, \<^verbatim>\<open>log.Fatalf\<close> ends
  the run with status 1, and no tree is created.
\<close>

theorem tree_creation_counterexample:
  "arguments [''o/r''] = Inr ([], ''o'', ''r'')
   \<and> (\<exists>e1 g. gather fork_refused_world (\<lambda>k. 0) ''o'' ''r'' = Inr (e1, g)
          \<and> g_changes g = [patched_a])
   \<and> filter is_CreateTree (fst (main fork_refused_world (\<lambda>k. 0) [''o/r''])) = []
   \<and> snd (main fork_refused_world (\<lambda>k. 0) [''o/r'']) = Exit 1"
proof -
  have p: "arguments [''o/r''] = Inr ([], ''o'', ''r'')"
    by (rule arguments_example)
  obtain e1 where g: "gather fork_refused_world (\<lambda>k. 0) ''o'' ''r'' = Inr (e1, example_gathered)"
    using gather_fork_refused by blast
  have "list_all is_read e1" using g by (rule gathered_reads)
  then have r: "filter is_CreateTree e1 = []"
    by (rule filter_reads) (rule creations_are_writes)
  have m: "main fork_refused_world (\<lambda>k. 0) [''o/r''] =
      (e1 @ [Log ''Found %d Go source files that need changes'' [D 1],
             Log ''Creating fork ...'' [],
             CreateFork_call ''o'' ''r'',
             Fatal ''Creating fork: %v'' [S ''403 Forbidden'']], Exit 1)"
    using main_parsed [OF p] g by (simp add: run_def publish_fork_refused finish_def)
  have c: "g_changes example_gathered = [patched_a]"
    by (simp add: example_gathered_def)
  from p g c r m show ?thesis by auto
qed

text \<open>
  Claim C5, amended. When the changeset is not empty and the fork is created (the call
  returns a repository with its URL, the login of its owner and its name), the trace of
  \<open>main\<close> holds exactly one tree creation: in the fork, with the id of the original tree
  (the one fetched at the original commit) as base, and with the changeset as overrides.
  The changeset holds, up to order, the patch of every selected candidate that has one and
  nothing else. So, with a hosting service that inherits from the base tree every entry
  that has no override, the tree that this call returns differs from the original tree
  only at paths of the changeset: wherever the two differ in mode or content hash, the
  changeset has an entry at that path.
\<close>

theorem tree_created_once:
  assumes "arguments args = Inr (e0, owner, repo)"
    and "gather w sched owner repo = Inr (e1, g)"
    and "g_changes g \<noteq> []"
    and "CreateFork w owner repo = Inr fork"
    and "HTMLURL fork = Some forkURL"
    and "Owner fork = Some forkOwner"
    and "Login forkOwner = Some login"
    and "Name fork = Some name"
  shows "\<exists>treeSHA.
       GetTree w owner repo (g_origCommit g) True = Inr (g_tree g)
     \<and> Tree_SHA (g_tree g) = Some treeSHA
     \<and> filter is_CreateTree (fst (main w sched args)) =
         [CreateTree_call login name treeSHA (g_changes g)]
     \<and> mset (g_changes g) =
         mset (concat (map (spec_patch w owner repo) (filter eligible (Entries (g_tree g)))))
     \<and> (spec_inherits_base_tree snapshot w \<longrightarrow>
          (\<forall>newTree newSHA path.
             CreateTree w login name treeSHA (g_changes g) = Inr newTree \<longrightarrow>
             Tree_SHA newTree = Some newSHA \<longrightarrow>
             snapshot newSHA path \<noteq> snapshot treeSHA path \<longrightarrow>
             (\<exists>e \<in> set (g_changes g). Path e = Some path)))"
proof -
  from gather_Inr [OF assms(2)] obtain treeSHA
    where t: "GetTree w owner repo (g_origCommit g) True = Inr (g_tree g)"
      "Tree_SHA (g_tree g) = Some treeSHA" by auto
  obtain e2 where f: "create_fork w owner repo = Inr (e2, fork, forkURL)"
    using create_fork_ok [OF assms(4,5)] by blast
  have "filter is_CreateTree (fst (main w sched args)) =
      filter is_CreateTree (trace (publish w owner repo g))"
    using assms(1,2) by (simp add: filter_main creations_are_writes)
  also have "\<dots> = [CreateTree_call login name treeSHA (g_changes g)]"
    using assms(3,6,7,8) f t(2) by (simp add: filter_tree_publish filter_create_tree)
  finally have c: "filter is_CreateTree (fst (main w sched args)) =
      [CreateTree_call login name treeSHA (g_changes g)]" .
  have d: "\<exists>e \<in> set (g_changes g). Path e = Some path"
    if "spec_inherits_base_tree snapshot w"
      and "CreateTree w login name treeSHA (g_changes g) = Inr newTree"
      and "Tree_SHA newTree = Some newSHA"
      and "snapshot newSHA path \<noteq> snapshot treeSHA path"
    for newTree newSHA path
  proof (rule ccontr)
    assume "\<not> (\<exists>e \<in> set (g_changes g). Path e = Some path)"
    then have "Some path \<notin> set (map Path (g_changes g))" by auto
    with that(1,2,3) have "snapshot newSHA path = snapshot treeSHA path"
      unfolding spec_inherits_base_tree_def by blast
    with that(4) show False by simp
  qed
  from t c gather_changes [OF assms(2)] d show ?thesis by blast
qed

theorem tree_created_once_witness:
  "arguments [''o/r''] = Inr ([], ''o'', ''r'')
   \<and> (\<exists>e1. gather example_world (\<lambda>k. 0) ''o'' ''r'' = Inr (e1, example_gathered))
   \<and> g_changes example_gathered = [patched_a]
   \<and> CreateFork example_world ''o'' ''r'' =
       Inr \<lparr>Owner = Some \<lparr>Login = Some ''bot''\<rparr>, Name = Some ''r'',
            HTMLURL = Some ''https://github.com/bot/r''\<rparr>
   \<and> filter is_CreateTree (fst (main example_world (\<lambda>k. 0) [''o/r''])) =
       [CreateTree_call ''bot'' ''r'' ''t0'' [patched_a]]
   \<and> spec_inherits_base_tree example_snapshot example_world
   \<and> CreateTree example_world ''bot'' ''r'' ''t0'' [patched_a] =
       Inr \<lparr>Tree_SHA = Some ''t1'', Entries = []\<rparr>
   \<and> example_snapshot ''t1'' ''a.go'' \<noteq> example_snapshot ''t0'' ''a.go''
   \<and> Path patched_a = Some ''a.go''
   \<and> example_snapshot ''t1'' ''pkg/b.go'' = example_snapshot ''t0'' ''pkg/b.go''"
proof -
  have p: "arguments [''o/r''] = Inr ([], ''o'', ''r'')"
    by (rule arguments_example)
  have c: "g_changes example_gathered \<noteq> []" "g_changes example_gathered = [patched_a]"
    "Tree_SHA (g_tree example_gathered) = Some ''t0''"
    by (simp_all add: example_gathered_def example_tree_def)
  have f: "CreateFork example_world ''o'' ''r'' =
       Inr \<lparr>Owner = Some \<lparr>Login = Some ''bot''\<rparr>, Name = Some ''r'',
            HTMLURL = Some ''https://github.com/bot/r''\<rparr>"
    by (simp add: example_world_def)
  have t: "CreateTree example_world ''bot'' ''r'' ''t0'' [patched_a] =
       Inr \<lparr>Tree_SHA = Some ''t1'', Entries = []\<rparr>"
    "Path patched_a = Some ''a.go''"
    by (simp_all add: example_world_def patched_a_def)
  have s: "spec_inherits_base_tree example_snapshot example_world"
    unfolding spec_inherits_base_tree_def
  proof (intro allI impI)
    fix owner repo base entries newTree newSHA path
    assume a: "CreateTree example_world owner repo base entries = Inr newTree"
      and b: "Tree_SHA newTree = Some newSHA"
      and n: "Some path \<notin> set (map Path entries)"
    from a have "base = ''t0''" and m: "map Path entries = [Some ''a.go'']"
      and "newTree = \<lparr>Tree_SHA = Some ''t1'', Entries = []\<rparr>"
      by (auto simp: example_world_def split: if_splits)
    with b have "newSHA = ''t1''" by simp
    moreover from n m have "path \<noteq> ''a.go''" by simp
    ultimately show "example_snapshot newSHA path = example_snapshot base path"
      using \<open>base = ''t0''\<close> by (simp add: example_snapshot_def)
  qed
  have x: "example_snapshot ''t1'' ''a.go'' \<noteq> example_snapshot ''t0'' ''a.go''"
    by (simp add: example_snapshot_def)
  from tree_created_once [OF p gather_example c(1) f, of "''https://github.com/bot/r''"
      "\<lparr>Login = Some ''bot''\<rparr>" "''bot''" "''r''" example_snapshot] c(3) s t
  have "example_snapshot ''t1'' ''pkg/b.go'' = example_snapshot ''t0'' ''pkg/b.go''"
    by (auto simp: c(2))
  moreover
  from tree_created_once [OF p gather_example c(1) f, of "''https://github.com/bot/r''"
      "\<lparr>Login = Some ''bot''\<rparr>" "''bot''" "''r''" example_snapshot] c(3)
  have "filter is_CreateTree (fst (main example_world (\<lambda>k. 0) [''o/r''])) =
       [CreateTree_call ''bot'' ''r'' ''t0'' [patched_a]]"
    by (auto simp: c(2))
  ultimately show ?thesis
    using p gather_example c f s t x by simp
qed

section \<open>Arguments with an empty component\<close>






text \<open>
  Claim C10, as the specification states it, fails for an argument that starts with
  \<^verbatim>\<open>-\<close>: \<^verbatim>\<open>-/\<close> has exactly one \<^verbatim>\<open>/\<close> and an empty repository component, but the
  flag package takes it for the undefined flag \<^verbatim>\<open>/\<close>, prints its message and the usage
  line, and exits with status 2 before the argument is split.
\<close>

theorem dash_component_refused:
  "''-/'' = ''-'' @ ''/'' @ '''' \<and> count_list ''-/'' (CHR ''/'') = 1
   \<and> (\<forall>w sched. main w sched [''-/''] =
         ([Print ''flag provided but not defined: -%s\<newline>'' [S ''/''],
           Print ''usage: prbot <user/repo>\<newline>'' []], Exit 2))"
  by (simp add: main_def arguments_def flag_Parse_def stop_def finish_def usage_def)



end
